theory Spec2Isabelle
  imports Complex_Main "HOL-Library.Log_Nat"
begin

section \<open>Binary64 values\<close>

text \<open>
  The metric series hold numpy \<open>float64\<close> values. A value is a rational number, one of the
  two infinities, or NaN; every arithmetic result is rounded to the nearest binary64 number,
  ties to even. The two zeros are not told apart: they compare equal and \<open>abs\<close> maps both to
  \<open>+0\<close>.
\<close>

datatype double = Finite rat | PosInf | NegInf | NaN

definition pow2 :: "int \<Rightarrow> rat" where
  "pow2 e = (if 0 \<le> e then 2 ^ nat e else 1 / 2 ^ nat (- e))"

text \<open>The integer \<open>k\<close> with \<open>2 ^ k \<le> x < 2 ^ (k + 1)\<close>, for a positive \<open>x\<close>.\<close>

definition ilog2 :: "rat \<Rightarrow> int" where
  "ilog2 x = (let (p, q) = quotient_of x; d = bitlen p - bitlen q
              in if pow2 d \<le> x then d else d - 1)"

definition round_half_even :: "rat \<Rightarrow> int" where
  "round_half_even r =
     (let f = \<lfloor>r\<rfloor>; d = r - of_int f
      in if d < 1 / 2 then f
         else if 1 / 2 < d then f + 1
         else if even f then f else f + 1)"

text \<open>
  Rounding to binary64: 53 significant bits, the least exponent of the last bit is \<open>-1074\<close>
  (subnormal numbers), and a rounded magnitude of \<open>2 ^ 1024\<close> or more overflows to infinity.
\<close>

definition round_double :: "rat \<Rightarrow> double" where
  "round_double x =
     (if x = 0 then Finite 0
      else let e = max (ilog2 \<bar>x\<bar> - 52) (- 1074);
               y = of_int (round_half_even (x / pow2 e)) * pow2 e
           in if pow2 1024 \<le> \<bar>y\<bar> then (if 0 < x then PosInf else NegInf)
              else Finite y)"

fun fadd :: "double \<Rightarrow> double \<Rightarrow> double" where
  "fadd NaN _ = NaN"
| "fadd _ NaN = NaN"
| "fadd PosInf NegInf = NaN"
| "fadd NegInf PosInf = NaN"
| "fadd PosInf _ = PosInf"
| "fadd _ PosInf = PosInf"
| "fadd NegInf _ = NegInf"
| "fadd _ NegInf = NegInf"
| "fadd (Finite x) (Finite y) = round_double (x + y)"

fun fneg :: "double \<Rightarrow> double" where
  "fneg (Finite x) = Finite (- x)"
| "fneg PosInf = NegInf"
| "fneg NegInf = PosInf"
| "fneg NaN = NaN"

definition fsub :: "double \<Rightarrow> double \<Rightarrow> double" where
  "fsub a b = fadd a (fneg b)"

fun fabs :: "double \<Rightarrow> double" where
  "fabs (Finite x) = Finite \<bar>x\<bar>"
| "fabs PosInf = PosInf"
| "fabs NegInf = PosInf"
| "fabs NaN = NaN"

text \<open>A value lies in the closed unit interval.\<close>

fun in_unit :: "double \<Rightarrow> bool" where
  "in_unit (Finite x) = (0 \<le> x \<and> x \<le> 1)"
| "in_unit _ = False"

section \<open>Labelled series\<close>

text \<open>
  A pandas \<open>Series\<close> of \<open>float64\<close>: the index labels with their values, in order. A label is
  a position of the default \<open>RangeIndex\<close> or a string (a file label).
\<close>

datatype label = Pos int | Name string

type_synonym series = "(label \<times> double) list"

fun str_le :: "string \<Rightarrow> string \<Rightarrow> bool" where
  "str_le [] _ = True"
| "str_le (c # cs) [] = False"
| "str_le (c # cs) (d # ds) =
     ((of_char c :: nat) < of_char d \<or> (c = d \<and> str_le cs ds))"

text \<open>The library sorts a mixed index with the numbers before the strings.\<close>

fun label_le :: "label \<Rightarrow> label \<Rightarrow> bool" where
  "label_le (Pos a) (Pos b) = (a \<le> b)"
| "label_le (Pos a) (Name t) = True"
| "label_le (Name s) (Pos b) = False"
| "label_le (Name s) (Name t) = str_le s t"

fun insert_label :: "label \<Rightarrow> label list \<Rightarrow> label list" where
  "insert_label l [] = [l]"
| "insert_label l (k # ks) = (if label_le l k then l # k # ks else k # insert_label l ks)"

fun sort_labels :: "label list \<Rightarrow> label list" where
  "sort_labels [] = []"
| "sort_labels (l # ls) = insert_label l (sort_labels ls)"

text \<open>The distinct elements of a list, each at its first occurrence.\<close>

fun first_occurrences :: "'a list \<Rightarrow> 'a list" where
  "first_occurrences [] = []"
| "first_occurrences (x # xs) = x # first_occurrences (filter (\<lambda>y. y \<noteq> x) xs)"

definition union_labels :: "label list \<Rightarrow> label list \<Rightarrow> label list" where
  "union_labels ks ls = sort_labels (first_occurrences (ks @ ls))"

definition values_at :: "label \<Rightarrow> series \<Rightarrow> double list" where
  "values_at l s = map snd (filter (\<lambda>p. fst p = l) s)"

text \<open>
  The rows of an outer join at one label: NaN where either side lacks the label, otherwise
  every pairing of the left values with the right values.
\<close>

definition join_label :: "series \<Rightarrow> series \<Rightarrow> label \<Rightarrow> series" where
  "join_label a b l =
     (let xs = values_at l a; ys = values_at l b
      in if xs = [] then map (\<lambda>y. (l, NaN)) ys
         else if ys = [] then map (\<lambda>x. (l, NaN)) xs
         else concat (map (\<lambda>x. map (\<lambda>y. (l, fadd x y)) ys) xs))"

text \<open>
  \<open>a + b\<close> on two series. With equal indexes the values are added position by position.
  Otherwise the operands are aligned by label on the union of the indexes (an empty operand
  leaves the other index as it is). The order of a misaligned result is the library's and no
  theorem below depends on it.
\<close>

definition series_add :: "series \<Rightarrow> series \<Rightarrow> series" where
  "series_add a b =
     (if map fst a = map fst b then map (\<lambda>(p, q). (fst p, fadd (snd p) (snd q))) (zip a b)
      else if a = [] then map (\<lambda>q. (fst q, NaN)) b
      else if b = [] then map (\<lambda>p. (fst p, NaN)) a
      else concat (map (join_label a b) (union_labels (map fst a) (map fst b))))"

definition series_sub_scalar :: "series \<Rightarrow> double \<Rightarrow> series" where
  "series_sub_scalar s c = map (\<lambda>p. (fst p, fsub (snd p) c)) s"

definition series_abs :: "series \<Rightarrow> series" where
  "series_abs s = map (\<lambda>p. (fst p, fabs (snd p))) s"

section \<open>The distance calculator (metrics/distance\_ia.py)\<close>

datatype py_error = TypeError | OSError | FileNotFoundError

record DistanceIA =
  dir_path :: string
  instability_metric :: "series option"
  abstractness_metric :: "series option"
  distance :: "series option"

definition init_DistanceIA :: "string \<Rightarrow> DistanceIA" where
  "init_DistanceIA p =
     \<lparr>dir_path = p, instability_metric = None, abstractness_metric = None, distance = None\<rparr>"

text \<open>\<open>abs(A + I - 1)\<close> on two series.\<close>

definition distance_of :: "series \<Rightarrow> series \<Rightarrow> series" where
  "distance_of a i = series_abs (series_sub_scalar (series_add a i) (Finite 1))"

text \<open>
  \<open>_calculate_distance\<close>: stores \<open>abs(A + I - 1)\<close> in the distance field. Before the metrics
  are set both fields hold \<open>None\<close>, and adding to \<open>None\<close> raises \<open>TypeError\<close>.
\<close>

definition calculate_distance :: "DistanceIA \<Rightarrow> py_error + DistanceIA" where
  "calculate_distance s =
     (case (abstractness_metric s, instability_metric s) of
        (Some a, Some i) \<Rightarrow> Inr (s\<lparr>distance := Some (distance_of a i)\<rparr>)
      | _ \<Rightarrow> Inl TypeError)"

text \<open>
  The calls made on the plotting library, with their arguments: \<open>plot\<close> with the positions,
  the values, the marker and the line style; \<open>xticks\<close> with the positions, the labels, the
  rotation and the alignment; \<open>ylabel\<close> with the text and the font size; \<open>show\<close>.
\<close>

datatype plot_call =
    Plot "nat list" series string string
  | Xticks "nat list" "label list" int string
  | Ylabel string nat
  | Show

text \<open>
  \<open>plot_distance\<close>: asks the collaborator for both metrics of the directory, computes the
  distance and hands it to the plotting library. The collaborator
  \<open>get_instability_and_abstractness_metric\<close> is a parameter; an exception it raises
  propagates.
\<close>

definition plot_distance ::
  "(string \<Rightarrow> py_error + series \<times> series) \<Rightarrow> DistanceIA \<Rightarrow> py_error + DistanceIA \<times> plot_call list"
where
  "plot_distance dsu s =
     (case dsu (dir_path s) of
        Inl e \<Rightarrow> Inl e
      | Inr (i, a) \<Rightarrow>
          (case calculate_distance (s\<lparr>instability_metric := Some i, abstractness_metric := Some a\<rparr>) of
             Inl e \<Rightarrow> Inl e
           | Inr s' \<Rightarrow>
               (case distance s' of
                  None \<Rightarrow> Inl TypeError
                | Some d \<Rightarrow>
                    (let ind = [0 ..< length d]
                     in Inr (s', [Plot ind d ''x'' ''None'', Xticks ind (map fst i) 45 ''right'',
                                 Ylabel ''[D]istance'' 18, Show])))))"

text \<open>The series of the unit test: the default index over the given decimal literals.\<close>

definition literal_series :: "rat list \<Rightarrow> series" where
  "literal_series xs = map (\<lambda>(k, x). (Pos (int k), round_double x)) (enumerate 0 xs)"

definition test_instability :: series where
  "test_instability = literal_series [6 / 10, 0, 1 / 10, 1, 0, 5 / 10]"

definition test_abstractness :: series where
  "test_abstractness = literal_series [3 / 10, 1, 0, 1, 8 / 10, 2 / 10]"

definition test_state :: DistanceIA where
  "test_state = (init_DistanceIA [])\<lparr>instability_metric := Some test_instability,
     abstractness_metric := Some test_abstractness\<rparr>"

text \<open>The decimal values the specification lists for the distance of the test series.\<close>

definition test_expected :: series where
  "test_expected = literal_series [1 / 10, 0, 9 / 10, 1, 2 / 10, 3 / 10]"

text \<open>The binary64 values the computation yields on the test series.\<close>

definition test_computed :: series where
  "test_computed =
     [(Pos 0, Finite (225179981368525 / 2251799813685248)),
      (Pos 1, Finite 0),
      (Pos 2, Finite (8106479329266893 / 9007199254740992)),
      (Pos 3, Finite 1),
      (Pos 4, Finite (900719925474099 / 4503599627370496)),
      (Pos 5, Finite (1351079888211149 / 4503599627370496))]"

text \<open>A state that still holds a stale distance from an earlier call.\<close>

definition stale_state :: DistanceIA where
  "stale_state = (init_DistanceIA [])\<lparr>distance := Some test_expected\<rparr>"

definition test_collaborator :: "string \<Rightarrow> py_error + series \<times> series" where
  "test_collaborator p = Inr (test_instability, test_abstractness)"

definition failing_collaborator :: "string \<Rightarrow> py_error + series \<times> series" where
  "failing_collaborator p = Inl OSError"

text \<open>Two series whose indexes share the label \<open>b\<close> only.\<close>

definition misaligned_abstractness :: series where
  "misaligned_abstractness = [(Name ''a'', Finite (1 / 2)), (Name ''b'', Finite 1)]"

definition misaligned_instability :: series where
  "misaligned_instability = [(Name ''b'', Finite (1 / 2)), (Name ''c'', Finite 0)]"

definition misaligned_state :: DistanceIA where
  "misaligned_state = (init_DistanceIA [])\<lparr>instability_metric := Some misaligned_instability,
     abstractness_metric := Some misaligned_abstractness\<rparr>"

section \<open>The dependency extractor\<close>

text \<open>
  The module \<open>metrics/instability_metric.py\<close> is not among the sources; only its unit tests
  are. The definitions of this section and the next follow the specification.
\<close>

text \<open>
  Modelled from the spec: reading a file of \<open>instability_metric.py\<close>. The file system maps a
  path to its text; the empty path and a path without readable text raise.
\<close>

definition read_file :: "(string \<rightharpoonup> string) \<Rightarrow> string \<Rightarrow> py_error + string" where
  "read_file fs path =
     (if path = [] then Inl FileNotFoundError
      else case fs path of None \<Rightarrow> Inl FileNotFoundError | Some text \<Rightarrow> Inr text)"

text \<open>Modelled from the spec: \<open>instability_metric.py\<close>, the tag of an include reference (section 3, IncludeReference).\<close>

datatype include_kind = UserLib | StdLib

text \<open>Modelled from the spec: \<open>instability_metric.py\<close>, the whitespace that may precede \<open>#include\<close> on a line.\<close>

definition is_space :: "char \<Rightarrow> bool" where
  "is_space c = (c \<in> set [CHR '' '', CHR 0x09, CHR 0x0B, CHR 0x0C, CHR 0x0D])"

text \<open>Modelled from the spec: \<open>instability_metric.py\<close>, the lines of a text, separated by the newline character.\<close>

fun split_lines :: "string \<Rightarrow> string list" where
  "split_lines [] = [[]]"
| "split_lines (c # cs) =
     (if c = CHR 0x0A then [] # split_lines cs
      else (case split_lines cs of [] \<Rightarrow> [[c]] | l # ls \<Rightarrow> (c # l) # ls))"

text \<open>Modelled from the spec: \<open>instability_metric.py\<close>, matching the fixed text \<open>#include\<close> at the start of a line.\<close>

fun strip_prefix :: "string \<Rightarrow> string \<Rightarrow> string option" where
  "strip_prefix [] s = Some s"
| "strip_prefix (p # ps) [] = None"
| "strip_prefix (p # ps) (c # cs) = (if p = c then strip_prefix ps cs else None)"

text \<open>
  Modelled from the spec: \<open>instability_metric.py\<close>, the text between the delimiters. The name runs up to the closing
  delimiter, which ends the line.
\<close>

definition delimited :: "char \<Rightarrow> string \<Rightarrow> string option" where
  "delimited close s =
     (if dropWhile (\<lambda>c. c \<noteq> close) s = [close] then Some (takeWhile (\<lambda>c. c \<noteq> close) s)
      else None)"

text \<open>
  Modelled from the spec: \<open>instability_metric.py\<close>, the two include forms of a line (section 4.1), \<open>#include "name"\<close>
  and \<open>#include <name>\<close>, after any leading whitespace. The double quote is the character
  \<open>0x22\<close>.
\<close>

definition classify_line :: "string \<Rightarrow> (include_kind \<times> string) option" where
  "classify_line line =
     (case strip_prefix ''#include '' (dropWhile is_space line) of
        None \<Rightarrow> None
      | Some [] \<Rightarrow> None
      | Some (c # cs) \<Rightarrow>
          if c = CHR 0x22 then map_option (Pair UserLib) (delimited (CHR 0x22) cs)
          else if c = CHR ''<'' then map_option (Pair StdLib) (delimited (CHR ''>'') cs)
          else None)"

text \<open>Modelled from the spec: \<open>instability_metric.py\<close>, the delimiters of the two include forms.\<close>

fun open_delim :: "include_kind \<Rightarrow> char" where
  "open_delim UserLib = CHR 0x22"
| "open_delim StdLib = CHR ''<''"

fun close_delim :: "include_kind \<Rightarrow> char" where
  "close_delim UserLib = CHR 0x22"
| "close_delim StdLib = CHR ''>''"

text \<open>Modelled from the spec: \<open>instability_metric.py\<close>, the names of one kind among the classified lines, in order.\<close>

definition names_of :: "include_kind \<Rightarrow> (include_kind \<times> string) list \<Rightarrow> string list" where
  "names_of k found = map snd (filter (\<lambda>r. fst r = k) found)"

text \<open>
  Modelled from the spec: \<open>instability_metric.py\<close>, the warning of the extractor (section 4.1).
  The unit test \<open>testEmptyFilePath\<close> requires the message to contain
  \<open>...returning default values\<close>, so the two parts of the spec's wording are joined by three
  dots.
\<close>

definition read_warning :: string where
  "read_warning = ''could not read file...returning default values''"

text \<open>
  Modelled from the spec: \<open>instability_metric.py\<close>, the lexical pass of the extractor over the text of one file
  (section 4.1): the names of the user includes and of the standard-library includes, each
  list in the order of the lines.
\<close>

definition includes_of_text :: "string \<Rightarrow> string list \<times> string list" where
  "includes_of_text text =
     (let found = List.map_filter classify_line (split_lines text)
      in (names_of UserLib found, names_of StdLib found))"

text \<open>
  Modelled from the spec: \<open>instability_metric.py\<close>, \<open>_get_includes_of_file\<close>, the dependency extractor (section 4.1).
  It returns the include lists of a file with the warnings it emits; a failed read is caught.
\<close>

definition get_includes_of_file ::
  "(string \<rightharpoonup> string) \<Rightarrow> string \<Rightarrow> (string list \<times> string list) \<times> string list"
where
  "get_includes_of_file fs path =
     (case read_file fs path of
        Inl e \<Rightarrow> (([], []), [read_warning])
      | Inr text \<Rightarrow> (includes_of_text text, []))"

text \<open>A file with a standard-library include, an indented user include and other lines.\<close>

definition test_source :: string where
  "test_source =
     ''#include <vector>'' @ [CHR 0x0A] @
     ''  #include '' @ [CHR 0x22] @ ''helper.h'' @ [CHR 0x22] @ [CHR 0x0A] @
     ''int main() { return 0; }'' @ [CHR 0x0A]"

definition test_file_system :: "string \<rightharpoonup> string" where
  "test_file_system = [''source.cpp'' \<mapsto> test_source]"

section \<open>The dependency matrix builder\<close>

text \<open>
  Modelled from the spec: \<open>instability_metric.py\<close>, the DependencyMatrix (section 3), a table of 0 and 1 with row
  labels (\<open>index\<close>), column labels and the rows of cells.
\<close>

record include_matrix =
  index :: "string list"
  columns :: "string list"
  cells :: "nat list list"

text \<open>
  Modelled from the spec: \<open>instability_metric.py\<close>, \<open>_create_user_include_matrix\<close> (section 4.2, step 1). The label
  extraction of the file utility is a parameter.
\<close>

definition create_user_include_matrix :: "(string \<Rightarrow> string) \<Rightarrow> string list \<Rightarrow> include_matrix" where
  "create_user_include_matrix extract_filename paths =
     (let labels = map extract_filename paths; n = length paths
      in \<lparr>index = labels, columns = labels, cells = replicate n (replicate n 0)\<rparr>)"

text \<open>Modelled from the spec: \<open>instability_metric.py\<close>, appending a zero column with a new label (section 4.2, step 2).\<close>

definition add_column :: "string \<Rightarrow> include_matrix \<Rightarrow> include_matrix" where
  "add_column name m = m\<lparr>columns := columns m @ [name], cells := map (\<lambda>row. row @ [0]) (cells m)\<rparr>"

text \<open>
  Modelled from the spec: \<open>instability_metric.py\<close>, the standard-library pass for one file: every name without a
  column gets one.
\<close>

definition add_stl_of_file :: "string list \<Rightarrow> include_matrix \<Rightarrow> include_matrix" where
  "add_stl_of_file stl m =
     fold (\<lambda>name m. if name \<in> set (columns m) then m else add_column name m) stl m"

text \<open>
  Modelled from the spec: \<open>instability_metric.py\<close>, \<open>_add_stl_includes\<close>, the standard-library pass over the files in
  listing order. Each file is given by its extracted include lists.
\<close>

definition add_stl_includes :: "(string list \<times> string list) list \<Rightarrow> include_matrix \<Rightarrow> include_matrix" where
  "add_stl_includes incs m = fold (\<lambda>inc m. add_stl_of_file (snd inc) m) incs m"

text \<open>
  Modelled from the spec: \<open>instability_metric.py\<close>, recording an edge of row \<open>i\<close> against the columns labelled
  \<open>name\<close>; a name without a column records nothing.
\<close>

definition set_cell :: "nat \<Rightarrow> string \<Rightarrow> include_matrix \<Rightarrow> include_matrix" where
  "set_cell i name m =
     (if i < length (cells m)
      then m\<lparr>cells := (cells m)[i := map (\<lambda>(c, v). if c = name then 1 else v)
                                         (zip (columns m) (cells m ! i))]\<rparr>
      else m)"

text \<open>
  Modelled from the spec: \<open>instability_metric.py\<close>, the fill pass for file \<open>i\<close>, over its user includes and its
  standard-library includes.
\<close>

definition fill_file :: "nat \<Rightarrow> string list \<times> string list \<Rightarrow> include_matrix \<Rightarrow> include_matrix" where
  "fill_file i inc m = fold (set_cell i) (fst inc @ snd inc) m"

text \<open>
  Modelled from the spec: \<open>instability_metric.py\<close>, \<open>_fill_include_matrix\<close>, the fill pass over the files in listing
  order.
\<close>

definition fill_include_matrix :: "(string list \<times> string list) list \<Rightarrow> include_matrix \<Rightarrow> include_matrix" where
  "fill_include_matrix incs m = fold (\<lambda>(i, inc) m. fill_file i inc m) (enumerate 0 incs) m"

text \<open>
  Modelled from the spec: \<open>instability_metric.py\<close>, the matrix builder (section 4.2) over the listed files. The
  extractor runs once on each file; growth comes before the edges are recorded.
\<close>

definition build_include_matrix ::
  "(string \<rightharpoonup> string) \<Rightarrow> (string \<Rightarrow> string) \<Rightarrow> string list \<Rightarrow> include_matrix \<times> string list"
where
  "build_include_matrix fs extract_filename paths =
     (let results = map (get_includes_of_file fs) paths;
          incs = map fst results
      in (fill_include_matrix incs
            (add_stl_includes incs (create_user_include_matrix extract_filename paths)),
          concat (map snd results)))"

text \<open>A matrix with one row for each of \<open>n\<close> files and one cell for each column.\<close>

definition well_shaped :: "nat \<Rightarrow> include_matrix \<Rightarrow> bool" where
  "well_shaped n m =
     (length (cells m) = n \<and> list_all (\<lambda>row. length row = length (columns m)) (cells m))"

definition all_zero :: "include_matrix \<Rightarrow> bool" where
  "all_zero m = list_all (list_all (\<lambda>v. v = 0)) (cells m)"

section \<open>The data of the unit tests of the matrix builder\<close>

definition test_filenames :: "string list" where
  "test_filenames = [''file0'', ''file1'', ''file2'']"

definition test_includes :: "(string list \<times> string list) list" where
  "test_includes =
     [([], [''std_lib'']), ([''file1''], []), ([''file1'', ''file2''], [''std_out''])]"

definition test_user_matrix :: include_matrix where
  "test_user_matrix = create_user_include_matrix (\<lambda>p. p) test_filenames"

definition test_grown_matrix :: include_matrix where
  "test_grown_matrix =
     \<lparr>index = test_filenames, columns = test_filenames @ [''std_lib'', ''std_out''],
      cells = replicate 3 (replicate 5 0)\<rparr>"

definition test_filled_matrix :: include_matrix where
  "test_filled_matrix =
     \<lparr>index = test_filenames, columns = test_filenames @ [''std_lib'', ''std_out''],
      cells = [[0, 0, 0, 1, 0], [0, 1, 0, 0, 0], [0, 1, 1, 0, 1]]\<rparr>"

text \<open>
  Two files that the label extraction maps to the same label, as the mocked extraction of
  \<open>testCorrectSizeOfMatrix\<close> does, the first with one standard-library include.
\<close>

definition same_label_matrix :: include_matrix where
  "same_label_matrix = create_user_include_matrix (\<lambda>p. ''test'') [''lib1.hpp'', ''lib2.hpp'']"

definition same_label_includes :: "(string list \<times> string list) list" where
  "same_label_includes = [([], [''vector'']), ([], [])]"

section \<open>Rounding to binary64\<close>

lemma pow2_powi: "pow2 e = 2 powi e"
  unfolding pow2_def power_int_def by (simp add: power_one_over inverse_eq_divide)

lemma pow2_pos: "0 < pow2 e"
  unfolding pow2_def by simp

lemma pow2_le_imp_le: "pow2 a \<le> pow2 b \<Longrightarrow> a \<le> b"
  unfolding pow2_powi using power_int_strict_increasing [of b a "2::rat"] by force

lemma pow2_add: "pow2 (a + b) = pow2 a * pow2 b"
  unfolding pow2_powi by (rule power_int_add) simp

lemma pow2_nat: "0 \<le> e \<Longrightarrow> pow2 e = of_int (2 ^ nat e)"
  unfolding pow2_def by simp

lemma round_half_even_le: "r \<le> of_int n \<Longrightarrow> round_half_even r \<le> n"
  unfolding round_half_even_def Let_def by (auto simp: floor_le_iff)

lemma floor_le_round_half_even: "\<lfloor>r\<rfloor> \<le> round_half_even r"
  unfolding round_half_even_def Let_def by simp

lemma round_half_even_ge:
  assumes "of_int n \<le> r"
  shows "n \<le> round_half_even r"
proof -
  have "n \<le> \<lfloor>r\<rfloor>" using assms by (simp add: le_floor_iff)
  then show ?thesis using floor_le_round_half_even [of r] by linarith
qed

lemma ilog2_lower:
  assumes "0 < x"
  shows "pow2 (ilog2 x) \<le> x"
proof -
  obtain p q where pq: "quotient_of x = (p, q)" by (cases "quotient_of x")
  have q: "0 < q" using pq quotient_of_denom_pos by blast
  have x: "x = of_int p / of_int q" using pq quotient_of_div by blast
  have p: "0 < p" using assms q x by (simp add: zero_less_divide_iff)
  define d where "d = bitlen p - bitlen q"
  show ?thesis
  proof (cases "pow2 d \<le> x")
    case True
    then show ?thesis by (simp add: ilog2_def pq d_def)
  next
    case False
    have lo: "(2::int) ^ nat (bitlen p - 1) \<le> p" using bitlen_bounds [OF p] by simp
    have hi: "q < (2::int) ^ nat (bitlen q)" using bitlen_bounds [OF q] by simp
    have bp: "1 \<le> bitlen p" using p bitlen_eq_zero_iff [of p] bitlen_nonneg [of p] by linarith
    have bq: "1 \<le> bitlen q" using q bitlen_eq_zero_iff [of q] bitlen_nonneg [of q] by linarith
    have "(of_int (2 ^ nat (bitlen p - 1)) :: rat) \<le> of_int p"
      using lo by (rule of_int_le_iff [THEN iffD2])
    then have lo': "pow2 (bitlen p - 1) \<le> of_int p"
      using bp pow2_nat [of "bitlen p - 1"] by simp
    have "(of_int q :: rat) \<le> of_int (2 ^ nat (bitlen q))"
      using hi by (intro of_int_le_iff [THEN iffD2]) simp
    then have hi': "of_int q \<le> pow2 (bitlen q)"
      using bq pow2_nat [of "bitlen q"] by simp
    have "pow2 (d - 1) * of_int q \<le> pow2 (d - 1) * pow2 (bitlen q)"
      using hi' pow2_pos [of "d - 1"] by (simp add: mult_left_mono)
    also have "\<dots> = pow2 (bitlen p - 1)"
      unfolding d_def pow2_add [symmetric] by simp
    also have "\<dots> \<le> of_int p" by (rule lo')
    finally have "pow2 (d - 1) \<le> x"
      using q unfolding x by (simp add: pos_le_divide_eq)
    with False show ?thesis by (simp add: ilog2_def pq d_def)
  qed
qed

lemma ilog2_le:
  assumes "0 < x" "x \<le> pow2 k"
  shows "ilog2 x \<le> k"
proof -
  have "pow2 (ilog2 x) \<le> pow2 k" using ilog2_lower [OF assms(1)] assms(2) by (rule order_trans)
  then show ?thesis by (rule pow2_le_imp_le)
qed

lemma round_double_bounded:
  assumes k: "- 1074 \<le> k" "k < 1024" and x: "\<bar>x\<bar> \<le> pow2 k"
  shows "\<exists>y. round_double x = Finite y \<and> \<bar>y\<bar> \<le> pow2 k \<and> (0 \<le> x \<longrightarrow> 0 \<le> y) \<and> (x \<le> 0 \<longrightarrow> y \<le> 0)"
proof (cases "x = 0")
  case True
  then show ?thesis using pow2_pos [of k] by (simp add: round_double_def)
next
  case False
  define e where "e = max (ilog2 \<bar>x\<bar> - 52) (- 1074)"
  define m where "m = round_half_even (x / pow2 e)"
  define y where "y = of_int m * pow2 e"
  have "ilog2 \<bar>x\<bar> \<le> k" using False x by (intro ilog2_le) simp_all
  then have ek: "e \<le> k" using k by (simp add: e_def)
  define N :: int where "N = 2 ^ nat (k - e)"
  have "pow2 k = pow2 (k - e) * pow2 e" unfolding pow2_add [symmetric] by simp
  then have kN: "pow2 k = of_int N * pow2 e" using ek by (simp add: N_def pow2_nat)
  have pe: "0 < pow2 e" by (rule pow2_pos)
  have xb: "- pow2 k \<le> x" "x \<le> pow2 k" using x by linarith+
  have "x / pow2 e \<le> of_int N" using xb(2) pe by (simp add: kN pos_divide_le_eq)
  then have mN: "m \<le> N" unfolding m_def by (rule round_half_even_le)
  have "of_int (- N) \<le> x / pow2 e" using xb(1) pe by (simp add: kN pos_le_divide_eq)
  then have Nm: "- N \<le> m" unfolding m_def by (rule round_half_even_ge)
  have "of_int m * pow2 e \<le> of_int N * pow2 e"
    using mN pe by (intro mult_right_mono) simp_all
  moreover have "of_int (- N) * pow2 e \<le> of_int m * pow2 e"
    using Nm pe by (intro mult_right_mono) (simp_all del: of_int_minus)
  ultimately have yb: "\<bar>y\<bar> \<le> pow2 k" unfolding y_def kN by (simp add: abs_le_iff)
  have pos: "0 \<le> y" if "0 \<le> x"
  proof -
    have "of_int 0 \<le> x / pow2 e" using that pe by simp
    then have "0 \<le> m" unfolding m_def by (rule round_half_even_ge)
    then show ?thesis using pe by (simp add: y_def)
  qed
  have neg: "y \<le> 0" if "x \<le> 0"
  proof -
    have "x / pow2 e \<le> of_int 0" using that pe by (simp add: divide_le_0_iff)
    then have "m \<le> 0" unfolding m_def by (rule round_half_even_le)
    then show ?thesis using pe by (simp add: y_def mult_le_0_iff)
  qed
  have "pow2 k < pow2 1024"
    using k(2) power_int_strict_increasing [of k 1024 "2::rat"] by (simp add: pow2_powi)
  then have "\<not> pow2 1024 \<le> \<bar>y\<bar>" using yb by linarith
  then have "round_double x = Finite y"
    using False unfolding round_double_def Let_def e_def [symmetric] m_def [symmetric] y_def [symmetric]
    by simp
  then show ?thesis using yb pos neg by blast
qed

section \<open>Series arithmetic\<close>

lemma fadd_commute: "fadd x y = fadd y x"
  by (cases x; cases y) (simp_all add: add.commute)

lemma pow2_0: "pow2 0 = 1" and pow2_1: "pow2 1 = 2"
  by (simp_all add: pow2_def)

lemma distance_value_unit:
  assumes "in_unit a" "in_unit i"
  shows "in_unit (fabs (fsub (fadd a i) (Finite 1)))"
proof -
  obtain x where a: "a = Finite x" "0 \<le> x" "x \<le> 1" using assms(1) by (cases a) simp_all
  obtain y where i: "i = Finite y" "0 \<le> y" "y \<le> 1" using assms(2) by (cases i) simp_all
  have "\<bar>x + y\<bar> \<le> pow2 1" using a i by (simp add: pow2_1)
  then obtain s where s: "round_double (x + y) = Finite s" "\<bar>s\<bar> \<le> pow2 1" "0 \<le> x + y \<longrightarrow> 0 \<le> s"
    using round_double_bounded [of 1 "x + y"] by auto
  then have s01: "0 \<le> s" "s \<le> 2" using a i by (simp_all add: pow2_1)
  then have "\<bar>s + - 1\<bar> \<le> pow2 0" by (simp add: pow2_0 abs_le_iff)
  then obtain t where t: "round_double (s + - 1) = Finite t" "\<bar>t\<bar> \<le> pow2 0"
    using round_double_bounded [of 0 "s + - 1"] by auto
  show ?thesis using a i s(1) t by (simp add: fsub_def pow2_0)
qed

lemma series_add_aligned:
  "map fst a = map fst i \<Longrightarrow>
   series_add a i = map (\<lambda>(p, q). (fst p, fadd (snd p) (snd q))) (zip a i)"
  by (simp add: series_add_def)

lemma distance_of_aligned:
  "map fst a = map fst i \<Longrightarrow>
   distance_of a i = map (\<lambda>(p, q). (fst p, fabs (fsub (fadd (snd p) (snd q)) (Finite 1)))) (zip a i)"
  by (simp add: distance_of_def series_add_def series_sub_scalar_def series_abs_def split_def)

lemma set_insert_label: "set (insert_label l ks) = insert l (set ks)"
  by (induction ks) auto

lemma set_sort_labels: "set (sort_labels ls) = set ls"
  by (induction ls) (simp_all add: set_insert_label)

lemma set_first_occurrences: "set (first_occurrences xs) = set xs"
  by (induction xs rule: first_occurrences.induct) auto

lemma distinct_first_occurrences: "distinct (first_occurrences xs)"
  by (induction xs rule: first_occurrences.induct) (auto simp: set_first_occurrences)

lemma set_union_labels: "set (union_labels ks ls) = set ks \<union> set ls"
  by (simp add: union_labels_def set_sort_labels set_first_occurrences)

lemma values_at_empty_iff: "values_at l s = [] \<longleftrightarrow> l \<notin> fst ` set s"
  by (auto simp: values_at_def filter_empty_conv)

lemma fst_join_label: "p \<in> set (join_label a b l) \<Longrightarrow> fst p = l"
  by (auto simp: join_label_def Let_def split: if_splits)

lemma join_label_nonempty:
  "l \<in> fst ` set a \<union> fst ` set b \<Longrightarrow> join_label a b l \<noteq> []"
  by (auto simp: join_label_def Let_def values_at_empty_iff)

lemma join_label_values:
  assumes "(l, v) \<in> set (join_label a b l)"
  shows "(l \<notin> fst ` set a \<or> l \<notin> fst ` set b \<longrightarrow> v = NaN) \<and>
         (l \<in> fst ` set a \<and> l \<in> fst ` set b \<longrightarrow>
            (\<exists>x \<in> set (values_at l a). \<exists>y \<in> set (values_at l b). v = fadd x y))"
  using assms by (auto simp: join_label_def Let_def values_at_empty_iff split: if_splits)

section \<open>Computing a rounding\<close>

lemma ilog2_upper:
  assumes "0 < x"
  shows "x < pow2 (ilog2 x + 1)"
proof -
  obtain p q where pq: "quotient_of x = (p, q)" by (cases "quotient_of x")
  have q: "0 < q" using pq quotient_of_denom_pos by blast
  have x: "x = of_int p / of_int q" using pq quotient_of_div by blast
  have p: "0 < p" using assms q x by (simp add: zero_less_divide_iff)
  define d where "d = bitlen p - bitlen q"
  have hi: "p < (2::int) ^ nat (bitlen p)" using bitlen_bounds [OF p] by simp
  have lo: "(2::int) ^ nat (bitlen q - 1) \<le> q" using bitlen_bounds [OF q] by simp
  have bq: "1 \<le> bitlen q" using q bitlen_eq_zero_iff [of q] bitlen_nonneg [of q] by linarith
  have "(of_int p :: rat) < of_int (2 ^ nat (bitlen p))"
    using hi by (rule of_int_less_iff [THEN iffD2])
  then have hi': "of_int p < pow2 (bitlen p)"
    using bitlen_nonneg [of p] pow2_nat [of "bitlen p"] by simp
  have "(of_int (2 ^ nat (bitlen q - 1)) :: rat) \<le> of_int q"
    using lo by (rule of_int_le_iff [THEN iffD2])
  then have lo': "pow2 (bitlen q - 1) \<le> of_int q"
    using bq pow2_nat [of "bitlen q - 1"] by simp
  have "of_int p < pow2 (bitlen p)" by (rule hi')
  also have "\<dots> = pow2 (d + 1) * pow2 (bitlen q - 1)"
    unfolding d_def pow2_add [symmetric] by simp
  also have "\<dots> \<le> pow2 (d + 1) * of_int q"
    using lo' pow2_pos [of "d + 1"] by (simp add: mult_left_mono)
  finally have up: "x < pow2 (d + 1)"
    using q unfolding x by (simp add: pos_divide_less_eq)
  show ?thesis
  proof (cases "pow2 d \<le> x")
    case True
    then show ?thesis using up by (simp add: ilog2_def pq d_def)
  next
    case False
    then show ?thesis by (simp add: ilog2_def pq d_def)
  qed
qed

lemma pow2_less_imp_less: "pow2 a < pow2 b \<Longrightarrow> a < b"
  unfolding pow2_powi using power_int_increasing [of b a "2::rat"] by force

lemma ilog2_eq:
  assumes "pow2 k \<le> x" "x < pow2 (k + 1)"
  shows "ilog2 x = k"
proof -
  have x: "0 < x" using pow2_pos [of k] assms(1) by linarith
  have "pow2 (ilog2 x) < pow2 (k + 1)" using ilog2_lower [OF x] assms(2) by linarith
  then have "ilog2 x < k + 1" by (rule pow2_less_imp_less)
  moreover have "pow2 k < pow2 (ilog2 x + 1)" using ilog2_upper [OF x] assms(1) by linarith
  then have "k < ilog2 x + 1" by (rule pow2_less_imp_less)
  ultimately show ?thesis by linarith
qed

lemma round_half_even_tie:
  assumes "\<bar>r - of_int m\<bar> = 1 / 2" "even m"
  shows "round_half_even r = m"
proof -
  consider "r = of_int m + 1 / 2" | "r = of_int m - 1 / 2" using assms(1) by linarith
  then show ?thesis
  proof cases
    case 1
    have "\<lfloor>r\<rfloor> = m" unfolding 1 by (simp add: floor_eq_iff)
    then show ?thesis using assms(2) unfolding round_half_even_def Let_def by (simp add: 1)
  next
    case 2
    have "\<lfloor>r\<rfloor> = m - 1" unfolding 2 by (simp add: floor_eq_iff)
    then show ?thesis using assms(2) unfolding round_half_even_def Let_def by (simp add: 2)
  qed
qed

lemma round_half_even_near:
  assumes "\<bar>r - of_int m\<bar> < 1 / 2"
  shows "round_half_even r = m"
proof -
  have b: "of_int m - 1 / 2 < r" "r < of_int m + 1 / 2" using assms by linarith+
  consider "\<lfloor>r\<rfloor> = m" | "\<lfloor>r\<rfloor> = m - 1"
  proof -
    have "of_int (m - 1) \<le> r" using b(1) by simp
    then have "m - 1 \<le> \<lfloor>r\<rfloor>" by (simp only: le_floor_iff)
    moreover have "r < of_int (m + 1)" using b(2) by simp
    then have "\<lfloor>r\<rfloor> < m + 1" by (simp only: floor_less_iff)
    ultimately have "\<lfloor>r\<rfloor> = m \<or> \<lfloor>r\<rfloor> = m - 1" by linarith
    then show ?thesis using that by blast
  qed
  then show ?thesis
  proof cases
    case 1
    then show ?thesis using b unfolding round_half_even_def Let_def by simp
  next
    case 2
    then show ?thesis using b unfolding round_half_even_def Let_def by simp
  qed
qed

text \<open>A rounding certificate for a normal number.\<close>

lemma round_double_normal:
  assumes k: "- 1022 \<le> k" "k < 1023"
    and x: "pow2 k \<le> \<bar>x\<bar>" "\<bar>x\<bar> < pow2 (k + 1)"
    and m: "\<bar>x / pow2 (k - 52) - of_int m\<bar> < 1 / 2 \<or>
            (\<bar>x / pow2 (k - 52) - of_int m\<bar> = 1 / 2 \<and> even m)"
  shows "round_double x = Finite (of_int m * pow2 (k - 52))"
proof -
  have x0: "x \<noteq> 0" using x(1) pow2_pos [of k] by auto
  have il: "ilog2 \<bar>x\<bar> = k" using x by (rule ilog2_eq)
  have e: "max (ilog2 \<bar>x\<bar> - 52) (- 1074) = k - 52" using k il by simp
  have r: "round_half_even (x / pow2 (k - 52)) = m" using m round_half_even_near round_half_even_tie by blast
  have pe: "0 < pow2 (k - 52)" by (rule pow2_pos)
  have "\<bar>x\<bar> \<le> pow2 (k + 1)" using x(2) by simp
  then obtain y where y: "round_double x = Finite y"
    using round_double_bounded [of "k + 1" x] k by auto
  then show ?thesis
    using x0 unfolding round_double_def Let_def e r by (simp split: if_splits)
qed

section \<open>The values of the unit test\<close>

lemma round_double_value_1:
  "round_double (3 / 5) = Finite (5404319552844595 / 9007199254740992)"
  using round_double_normal [of "-1" "3 / 5" "5404319552844595"] by (simp add: pow2_def)

lemma round_double_value_2:
  "round_double (1 / 10) = Finite (3602879701896397 / 36028797018963968)"
  using round_double_normal [of "-4" "1 / 10" "7205759403792794"] by (simp add: pow2_def)

lemma round_double_value_3:
  "round_double 1 = Finite 1"
  using round_double_normal [of "0" "1" "4503599627370496"] by (simp add: pow2_def)

lemma round_double_value_4:
  "round_double (1 / 2) = Finite (1 / 2)"
  using round_double_normal [of "-1" "1 / 2" "4503599627370496"] by (simp add: pow2_def)

lemma round_double_value_5:
  "round_double (3 / 10) = Finite (5404319552844595 / 18014398509481984)"
  using round_double_normal [of "-2" "3 / 10" "5404319552844595"] by (simp add: pow2_def)

lemma round_double_value_6:
  "round_double (4 / 5) = Finite (3602879701896397 / 4503599627370496)"
  using round_double_normal [of "-1" "4 / 5" "7205759403792794"] by (simp add: pow2_def)

lemma round_double_value_7:
  "round_double (1 / 5) = Finite (3602879701896397 / 18014398509481984)"
  using round_double_normal [of "-3" "1 / 5" "7205759403792794"] by (simp add: pow2_def)

lemma round_double_value_8:
  "round_double (9 / 10) = Finite (8106479329266893 / 9007199254740992)"
  using round_double_normal [of "-1" "9 / 10" "8106479329266893"] by (simp add: pow2_def)

lemma round_double_value_9:
  "round_double (16212958658533785 / 18014398509481984) = Finite (2026619832316723 / 2251799813685248)"
  using round_double_normal [of "-1" "16212958658533785 / 18014398509481984" "8106479329266892"] by (simp add: pow2_def)

lemma round_double_value_10:
  "round_double (- (225179981368525 / 2251799813685248)) = Finite (- (225179981368525 / 2251799813685248))"
  using round_double_normal [of "-4" "- (225179981368525 / 2251799813685248)" "-7205759403792800"] by (simp add: pow2_def)

lemma round_double_value_11:
  "round_double (3602879701896397 / 36028797018963968) = Finite (3602879701896397 / 36028797018963968)"
  using round_double_normal [of "-4" "3602879701896397 / 36028797018963968" "7205759403792794"] by (simp add: pow2_def)

lemma round_double_value_12:
  "round_double (- (32425917317067571 / 36028797018963968)) = Finite (- (8106479329266893 / 9007199254740992))"
  using round_double_normal [of "-1" "- (32425917317067571 / 36028797018963968)" "-8106479329266893"] by (simp add: pow2_def)

lemma round_double_value_13:
  "round_double 2 = Finite 2"
  using round_double_normal [of "1" "2" "4503599627370496"] by (simp add: pow2_def)

lemma round_double_value_14:
  "round_double (3602879701896397 / 4503599627370496) = Finite (3602879701896397 / 4503599627370496)"
  using round_double_normal [of "-1" "3602879701896397 / 4503599627370496" "7205759403792794"] by (simp add: pow2_def)

lemma round_double_value_15:
  "round_double (- (900719925474099 / 4503599627370496)) = Finite (- (900719925474099 / 4503599627370496))"
  using round_double_normal [of "-3" "- (900719925474099 / 4503599627370496)" "-7205759403792792"] by (simp add: pow2_def)

lemma round_double_value_16:
  "round_double (12610078956637389 / 18014398509481984) = Finite (3152519739159347 / 4503599627370496)"
  using round_double_normal [of "-1" "12610078956637389 / 18014398509481984" "6305039478318694"] by (simp add: pow2_def)

lemma round_double_value_17:
  "round_double (- (1351079888211149 / 4503599627370496)) = Finite (- (1351079888211149 / 4503599627370496))"
  using round_double_normal [of "-2" "- (1351079888211149 / 4503599627370496)" "-5404319552844596"] by (simp add: pow2_def)

lemmas round_double_values = round_double_value_1 round_double_value_2 round_double_value_3
  round_double_value_4 round_double_value_5 round_double_value_6 round_double_value_7
  round_double_value_8 round_double_value_9 round_double_value_10 round_double_value_11
  round_double_value_12 round_double_value_13 round_double_value_14 round_double_value_15
  round_double_value_16 round_double_value_17

lemma round_double_0: "round_double 0 = Finite 0"
  by (simp add: round_double_def)

lemma test_instability_value:
  "test_instability =
     [(Pos 0, Finite (5404319552844595 / 9007199254740992)), (Pos 1, Finite 0),
      (Pos 2, Finite (3602879701896397 / 36028797018963968)), (Pos 3, Finite 1),
      (Pos 4, Finite 0), (Pos 5, Finite (1 / 2))]"
  by (simp add: test_instability_def literal_series_def round_double_values round_double_0)

lemma test_abstractness_value:
  "test_abstractness =
     [(Pos 0, Finite (5404319552844595 / 18014398509481984)), (Pos 1, Finite 1),
      (Pos 2, Finite 0), (Pos 3, Finite 1),
      (Pos 4, Finite (3602879701896397 / 4503599627370496)),
      (Pos 5, Finite (3602879701896397 / 18014398509481984))]"
  by (simp add: test_abstractness_def literal_series_def round_double_values round_double_0)

lemma test_distance_value: "distance_of test_abstractness test_instability = test_computed"
  by (simp add: distance_of_aligned test_abstractness_value test_instability_value
      test_computed_def fsub_def round_double_values round_double_0)

section \<open>Lemmas on the extractor and the matrix passes\<close>

subsection \<open>Extractor\<close>

lemma strip_prefix_append: "strip_prefix p (p @ s) = Some s"
  by (induction p) simp_all

lemma strip_prefix_SomeD: "strip_prefix p s = Some r \<Longrightarrow> s = p @ r"
  by (induction p s rule: strip_prefix.induct) (simp_all split: if_splits)

lemma delimited_closed: "close \<notin> set name \<Longrightarrow> delimited close (name @ [close]) = Some name"
  by (simp add: delimited_def dropWhile_append3 takeWhile_append2)

lemma delimited_SomeD:
  assumes "delimited close s = Some name"
  shows "s = name @ [close] \<and> close \<notin> set name"
proof -
  have d: "dropWhile (\<lambda>c. c \<noteq> close) s = [close]" and t: "name = takeWhile (\<lambda>c. c \<noteq> close) s"
    using assms by (auto simp: delimited_def split: if_splits)
  have "s = takeWhile (\<lambda>c. c \<noteq> close) s @ dropWhile (\<lambda>c. c \<noteq> close) s" by simp
  then have "s = name @ [close]" unfolding d t [symmetric] .
  moreover have "close \<notin> set name" unfolding t by (auto dest: set_takeWhileD)
  ultimately show ?thesis by simp
qed

lemma dropWhile_space_include:
  "list_all is_space ws \<Longrightarrow> dropWhile is_space (ws @ ''#include '' @ r) = ''#include '' @ r"
  by (induction ws) (simp_all add: is_space_def)

lemma classify_user_form:
  assumes "list_all is_space ws" "CHR 0x22 \<notin> set name"
  shows "classify_line (ws @ ''#include '' @ [CHR 0x22] @ name @ [CHR 0x22]) = Some (UserLib, name)"
proof -
  have "dropWhile is_space (ws @ ''#include '' @ [CHR 0x22] @ name @ [CHR 0x22])
        = ''#include '' @ [CHR 0x22] @ name @ [CHR 0x22]"
    using assms(1) by (rule dropWhile_space_include)
  then show ?thesis
    unfolding classify_line_def using delimited_closed [OF assms(2)]
    by (simp only: strip_prefix_append) simp
qed

lemma classify_std_form:
  assumes "list_all is_space ws" "CHR ''>'' \<notin> set name"
  shows "classify_line (ws @ ''#include '' @ ''<'' @ name @ ''>'') = Some (StdLib, name)"
proof -
  have "dropWhile is_space (ws @ ''#include '' @ ''<'' @ name @ ''>'')
        = ''#include '' @ ''<'' @ name @ ''>''"
    using assms(1) by (rule dropWhile_space_include)
  then show ?thesis
    unfolding classify_line_def using delimited_closed [OF assms(2)]
    by (simp only: strip_prefix_append) simp
qed

lemma classify_line_SomeD:
  assumes "classify_line line = Some (k, name)"
  shows "\<exists>ws. list_all is_space ws \<and> close_delim k \<notin> set name \<and>
           line = ws @ ''#include '' @ [open_delim k] @ name @ [close_delim k]"
proof -
  define ws where "ws = takeWhile is_space line"
  define body where "body = dropWhile is_space line"
  have line: "line = ws @ body" by (simp add: ws_def body_def)
  have ws: "list_all is_space ws" by (auto simp: ws_def list_all_iff dest: set_takeWhileD)
  obtain r where r: "strip_prefix ''#include '' body = Some r"
    using assms unfolding classify_line_def body_def [symmetric] by (cases "strip_prefix ''#include '' body") simp_all
  then have body: "body = ''#include '' @ r" by (rule strip_prefix_SomeD)
  obtain c cs where rc: "r = c # cs"
    using assms r unfolding classify_line_def body_def [symmetric] by (cases r) simp_all
  have cases: "(c = CHR 0x22 \<and> k = UserLib \<and> delimited (CHR 0x22) cs = Some name) \<or>
               (c = CHR ''<'' \<and> k = StdLib \<and> delimited (CHR ''>'') cs = Some name)"
    using assms r rc unfolding classify_line_def body_def [symmetric]
    by (auto split: if_splits)
  then have "c = open_delim k \<and> delimited (close_delim k) cs = Some name" by auto
  then have "c = open_delim k" "cs = name @ [close_delim k]" "close_delim k \<notin> set name"
    using delimited_SomeD by blast+
  then show ?thesis using ws line body rc by auto
qed

lemma split_lines_no_newline: "CHR 0x0A \<notin> set l \<Longrightarrow> split_lines l = [l]"
  by (induction l) auto

lemma split_lines_nonempty: "split_lines s \<noteq> []"
  by (induction s) (simp_all split: list.splits)

lemma split_lines_line:
  "CHR 0x0A \<notin> set l \<Longrightarrow> split_lines (l @ CHR 0x0A # rest) = l # split_lines rest"
  by (induction l) auto

subsection \<open>Standard-library pass\<close>

lemma columns_add_column: "columns (add_column name m) = columns m @ [name]"
  and cells_add_column: "cells (add_column name m) = map (\<lambda>row. row @ [0]) (cells m)"
  and index_add_column: "index (add_column name m) = index m"
  by (simp_all add: add_column_def)

lemma add_stl_of_file_Nil: "add_stl_of_file [] m = m"
  by (simp add: add_stl_of_file_def)

lemma add_stl_of_file_Cons:
  "add_stl_of_file (name # stl) m =
     add_stl_of_file stl (if name \<in> set (columns m) then m else add_column name m)"
  by (simp add: add_stl_of_file_def)

lemma add_stl_of_file_known: "set stl \<subseteq> set (columns m) \<Longrightarrow> add_stl_of_file stl m = m"
  by (induction stl) (simp_all add: add_stl_of_file_Nil add_stl_of_file_Cons)

lemma filter_filter_notin:
  "filter (\<lambda>y. y \<noteq> x) (filter (\<lambda>n. n \<notin> A) xs) = filter (\<lambda>n. n \<notin> insert x A) xs"
  by (induction xs) auto

lemma columns_add_stl_of_file:
  "columns (add_stl_of_file stl m) =
     columns m @ first_occurrences (filter (\<lambda>n. n \<notin> set (columns m)) stl)"
proof (induction stl arbitrary: m)
  case Nil
  then show ?case by (simp add: add_stl_of_file_Nil)
next
  case (Cons name stl)
  show ?case
  proof (cases "name \<in> set (columns m)")
    case True
    then show ?thesis by (simp add: add_stl_of_file_Cons Cons.IH)
  next
    case False
    then show ?thesis
      by (simp add: add_stl_of_file_Cons Cons.IH columns_add_column filter_filter_notin conj_commute)
  qed
qed

lemma cells_add_stl_of_file:
  "cells (add_stl_of_file stl m) =
     map (\<lambda>row. row @ replicate (length (columns (add_stl_of_file stl m)) - length (columns m)) 0)
       (cells m)"
proof (induction stl arbitrary: m)
  case Nil
  then show ?case by (simp add: add_stl_of_file_Nil)
next
  case (Cons name stl)
  show ?case
  proof (cases "name \<in> set (columns m)")
    case True
    then show ?thesis by (simp add: add_stl_of_file_Cons Cons.IH)
  next
    case False
    have "length (columns (add_stl_of_file stl (add_column name m))) - length (columns m)
          = Suc (length (columns (add_stl_of_file stl (add_column name m))) - Suc (length (columns m)))"
      by (simp add: columns_add_stl_of_file columns_add_column)
    then show ?thesis using False
      by (simp add: add_stl_of_file_Cons Cons.IH [of "add_column name m"] columns_add_column
          cells_add_column o_def replicate_append_same)
  qed
qed

lemma index_add_stl_of_file: "index (add_stl_of_file stl m) = index m"
  by (induction stl arbitrary: m) (simp_all add: add_stl_of_file_Nil add_stl_of_file_Cons index_add_column)

lemma add_stl_of_file_append:
  "add_stl_of_file (xs @ ys) m = add_stl_of_file ys (add_stl_of_file xs m)"
  by (simp add: add_stl_of_file_def)

lemma add_stl_includes_concat:
  "add_stl_includes incs m = add_stl_of_file (concat (map snd incs)) m"
  unfolding add_stl_includes_def
  by (induction incs arbitrary: m) (simp_all add: add_stl_of_file_Nil add_stl_of_file_append)

subsection \<open>Fill pass\<close>

lemma columns_set_cell: "columns (set_cell i name m) = columns m"
  and index_set_cell: "index (set_cell i name m) = index m"
  and length_cells_set_cell: "length (cells (set_cell i name m)) = length (cells m)"
  by (simp_all add: set_cell_def)

lemma well_shaped_set_cell: "well_shaped n m \<Longrightarrow> well_shaped n (set_cell i name m)"
  by (auto simp: well_shaped_def set_cell_def list_all_iff dest!: set_update_subset_insert [THEN subsetD])

lemma nth_set_cell:
  assumes "well_shaped n m" "r < n" "j < length (columns m)"
  shows "cells (set_cell i name m) ! r ! j =
           (if r = i \<and> columns m ! j = name then 1 else cells m ! r ! j)"
proof -
  have len: "length (cells m) = n" and row: "length (cells m ! r) = length (columns m)"
    using assms by (auto simp: well_shaped_def list_all_length)
  show ?thesis using assms(2,3) len row by (simp add: set_cell_def nth_list_update)
qed

lemma fill_names:
  assumes "well_shaped n m"
  shows "well_shaped n (fold (set_cell i) names m) \<and>
         columns (fold (set_cell i) names m) = columns m \<and>
         index (fold (set_cell i) names m) = index m \<and>
         (\<forall>r < n. \<forall>j < length (columns m).
            cells (fold (set_cell i) names m) ! r ! j =
              (if r = i \<and> columns m ! j \<in> set names then 1 else cells m ! r ! j))"
  using assms
proof (induction names arbitrary: m)
  case Nil
  then show ?case by simp
next
  case (Cons name names)
  have ws: "well_shaped n (set_cell i name m)" using Cons.prems by (rule well_shaped_set_cell)
  note IH = Cons.IH [OF ws]
  show ?case using IH Cons.prems
    by (auto simp: columns_set_cell index_set_cell nth_set_cell)
qed

lemma fill_file_props:
  assumes "well_shaped n m"
  shows "well_shaped n (fill_file i inc m) \<and>
         columns (fill_file i inc m) = columns m \<and>
         index (fill_file i inc m) = index m \<and>
         (\<forall>r < n. \<forall>j < length (columns m).
            cells (fill_file i inc m) ! r ! j =
              (if r = i \<and> columns m ! j \<in> set (fst inc) \<union> set (snd inc) then 1
               else cells m ! r ! j))"
  using fill_names [OF assms, of i "fst inc @ snd inc"] by (simp add: fill_file_def)

lemma fill_from:
  assumes "well_shaped n m"
  shows "well_shaped n (fold (\<lambda>(i, inc) m. fill_file i inc m) (enumerate k incs) m) \<and>
         columns (fold (\<lambda>(i, inc) m. fill_file i inc m) (enumerate k incs) m) = columns m \<and>
         index (fold (\<lambda>(i, inc) m. fill_file i inc m) (enumerate k incs) m) = index m \<and>
         (\<forall>r < n. \<forall>j < length (columns m).
            cells (fold (\<lambda>(i, inc) m. fill_file i inc m) (enumerate k incs) m) ! r ! j =
              (if k \<le> r \<and> r < k + length incs \<and>
                  columns m ! j \<in> set (fst (incs ! (r - k))) \<union> set (snd (incs ! (r - k)))
               then 1 else cells m ! r ! j))"
  using assms
proof (induction incs arbitrary: k m)
  case Nil
  then show ?case by simp
next
  case (Cons inc incs)
  note F = fill_file_props [OF Cons.prems, of k inc]
  have ws: "well_shaped n (fill_file k inc m)" using F by simp
  note IH = Cons.IH [OF ws, of "Suc k"]
  have cols: "columns (fill_file k inc m) = columns m" using F by simp
  show ?case
  proof (intro conjI allI impI)
    fix r j assume r: "r < n" and j: "j < length (columns m)"
    have step: "cells (fill_file k inc m) ! r ! j =
        (if r = k \<and> columns m ! j \<in> set (fst inc) \<union> set (snd inc) then 1 else cells m ! r ! j)"
      using F r j by blast
    have rest: "cells (fold (\<lambda>(i, inc) m. fill_file i inc m) (enumerate (Suc k) incs) (fill_file k inc m)) ! r ! j =
        (if Suc k \<le> r \<and> r < Suc k + length incs \<and>
            columns m ! j \<in> set (fst (incs ! (r - Suc k))) \<union> set (snd (incs ! (r - Suc k)))
         then 1 else cells (fill_file k inc m) ! r ! j)"
      using IH r j unfolding cols by blast
    show "cells (fold (\<lambda>(i, inc) m. fill_file i inc m) (enumerate k (inc # incs)) m) ! r ! j =
        (if k \<le> r \<and> r < k + length (inc # incs) \<and>
            columns m ! j \<in> set (fst ((inc # incs) ! (r - k))) \<union> set (snd ((inc # incs) ! (r - k)))
         then 1 else cells m ! r ! j)"
    proof (cases "r = k")
      case True
      then show ?thesis using rest step by simp
    next
      case False
      have "(inc # incs) ! (r - k) = incs ! (r - Suc k)" if "k \<le> r"
      proof -
        have "r - k = Suc (r - Suc k)" using that False by simp
        then show ?thesis by simp
      qed
      then show ?thesis using rest step False by (auto simp: Suc_le_eq)
    qed
  qed (use IH cols F in simp_all)
qed

lemma all_zero_nth:
  assumes "all_zero m" "r < length (cells m)" "j < length (cells m ! r)"
  shows "cells m ! r ! j = 0"
  using assms by (auto simp: all_zero_def list_all_length)

section \<open>Properties of the distance calculator\<close>

lemma calculate_distance_Some:
  "abstractness_metric s = Some a \<Longrightarrow> instability_metric s = Some i \<Longrightarrow>
   calculate_distance s = Inr (s\<lparr>distance := Some (distance_of a i)\<rparr>)"
  by (simp add: calculate_distance_def)

lemma test_state_fields:
  "abstractness_metric test_state = Some test_abstractness"
  "instability_metric test_state = Some test_instability"
  by (simp_all add: test_state_def)

lemma test_aligned: "map fst test_abstractness = map fst test_instability"
  by (simp add: test_abstractness_value test_instability_value)

lemma test_expected_value:
  "test_expected =
     [(Pos 0, Finite (3602879701896397 / 36028797018963968)), (Pos 1, Finite 0),
      (Pos 2, Finite (8106479329266893 / 9007199254740992)), (Pos 3, Finite 1),
      (Pos 4, Finite (3602879701896397 / 18014398509481984)),
      (Pos 5, Finite (5404319552844595 / 18014398509481984))]"
  by (simp add: test_expected_def literal_series_def round_double_values round_double_0)

text \<open>
  Claim C1, as the code has it. For an abstractness series and an instability series with the
  same index, \<open>_calculate_distance\<close> stores the series over that index whose value at each
  position is \<open>abs((A + I) - 1)\<close> in binary64 arithmetic, every operation rounded. On the
  series of the unit test the result is \<open>test_computed\<close>, that is
  0.10000000000000009, 0.0, 0.9, 1.0, 0.19999999999999996, 0.30000000000000004.
\<close>

theorem distance_elementwise:
  assumes "abstractness_metric s = Some a" "instability_metric s = Some i"
    and "map fst a = map fst i"
  shows "calculate_distance s =
           Inr (s\<lparr>distance := Some (map (\<lambda>(p, q). (fst p, fabs (fsub (fadd (snd p) (snd q)) (Finite 1))))
                                   (zip a i))\<rparr>) \<and>
         calculate_distance test_state = Inr (test_state\<lparr>distance := Some test_computed\<rparr>)"
  using assms
  by (simp add: calculate_distance_Some distance_of_aligned test_state_fields test_distance_value)

theorem distance_elementwise_witness:
  "abstractness_metric test_state = Some test_abstractness \<and>
   instability_metric test_state = Some test_instability \<and>
   map fst test_abstractness = map fst test_instability \<and>
   calculate_distance test_state =
     Inr (test_state\<lparr>distance := Some (map (\<lambda>(p, q). (fst p, fabs (fsub (fadd (snd p) (snd q)) (Finite 1))))
                                   (zip test_abstractness test_instability))\<rparr>)"
proof -
  have "calculate_distance test_state =
     Inr (test_state\<lparr>distance := Some (map (\<lambda>(p, q). (fst p, fabs (fsub (fadd (snd p) (snd q)) (Finite 1))))
                                   (zip test_abstractness test_instability))\<rparr>)"
    using distance_elementwise [OF test_state_fields test_aligned] by (rule conjunct1)
  then show ?thesis using test_state_fields test_aligned by blast
qed

text \<open>
  The distance of the test series is not the series of the decimal literals
  .1, .0, .9, 1., .2, .3: three of its values differ from them in the last bits.
\<close>

theorem distance_test_values_counterexample:
  "calculate_distance test_state \<noteq> Inr (test_state\<lparr>distance := Some test_expected\<rparr>)"
proof
  assume "calculate_distance test_state = Inr (test_state\<lparr>distance := Some test_expected\<rparr>)"
  then have "test_state\<lparr>distance := Some (distance_of test_abstractness test_instability)\<rparr> =
      test_state\<lparr>distance := Some test_expected\<rparr>"
    by (simp only: calculate_distance_Some [OF test_state_fields] sum.inject)
  then have "distance (test_state\<lparr>distance := Some (distance_of test_abstractness test_instability)\<rparr>) =
      distance (test_state\<lparr>distance := Some test_expected\<rparr>)"
    by (rule arg_cong)
  then have "distance_of test_abstractness test_instability = test_expected"
    by simp
  then show False
    by (simp add: test_distance_value test_computed_def test_expected_value)
qed

text \<open>
  Claim C7. When both series have the same index and all their values lie in the unit
  interval, every value of the computed distance series lies in the unit interval.
\<close>

theorem distance_in_unit_interval:
  assumes "abstractness_metric s = Some a" "instability_metric s = Some i"
    and "map fst a = map fst i"
    and "list_all in_unit (map snd a)" "list_all in_unit (map snd i)"
  shows "\<exists>d. calculate_distance s = Inr (s\<lparr>distance := Some d\<rparr>) \<and>
             map fst d = map fst a \<and> list_all in_unit (map snd d)"
proof -
  let ?d = "distance_of a i"
  have len: "length a = length i" using assms(3) by (metis length_map)
  have d: "?d = map (\<lambda>(p, q). (fst p, fabs (fsub (fadd (snd p) (snd q)) (Finite 1)))) (zip a i)"
    using assms(3) by (rule distance_of_aligned)
  have "map fst ?d = map fst a"
    unfolding d using len by (induction a i rule: list_induct2) simp_all
  moreover have "list_all in_unit (map snd ?d)"
  proof -
    have "in_unit (fabs (fsub (fadd (snd (fst pq)) (snd (snd pq))) (Finite 1)))"
      if "pq \<in> set (zip a i)" for pq
    proof -
      have m: "(fst pq, snd pq) \<in> set (zip a i)" using that by simp
      have "fst pq \<in> set a" using m by (rule set_zip_leftD)
      then have 1: "in_unit (snd (fst pq))" using assms(4) by (simp add: list_all_iff)
      have "snd pq \<in> set i" using m by (rule set_zip_rightD)
      then have 2: "in_unit (snd (snd pq))" using assms(5) by (simp add: list_all_iff)
      show ?thesis using 1 2 by (rule distance_value_unit)
    qed
    then show ?thesis unfolding d by (simp add: split_def o_def list_all_iff)
  qed
  ultimately show ?thesis using calculate_distance_Some [OF assms(1,2)] by blast
qed

lemma test_values_in_unit:
  "list_all in_unit (map snd test_abstractness)"
  "list_all in_unit (map snd test_instability)"
  by (simp_all add: test_abstractness_value test_instability_value)

theorem distance_in_unit_interval_witness:
  "abstractness_metric test_state = Some test_abstractness \<and>
   instability_metric test_state = Some test_instability \<and>
   map fst test_abstractness = map fst test_instability \<and>
   list_all in_unit (map snd test_abstractness) \<and>
   list_all in_unit (map snd test_instability) \<and>
   (\<exists>d. calculate_distance test_state = Inr (test_state\<lparr>distance := Some d\<rparr>) \<and>
        map fst d = map fst test_abstractness \<and> list_all in_unit (map snd d))"
  using distance_in_unit_interval [OF test_state_fields test_aligned test_values_in_unit]
    test_state_fields test_aligned test_values_in_unit
  by blast

text \<open>
  Claim C8. For two series with the same index, exchanging the abstractness value and the
  instability value at one position leaves the whole distance series unchanged, and so does
  exchanging the two series.
\<close>

theorem distance_swap_invariant:
  assumes "map fst a = map fst i" "k < length a"
  shows "distance_of (a[k := (fst (a ! k), snd (i ! k))]) (i[k := (fst (i ! k), snd (a ! k))])
           = distance_of a i \<and>
         distance_of i a = distance_of a i"
proof -
  have len: "length a = length i" using assms(1) by (metis length_map)
  let ?a = "a[k := (fst (a ! k), snd (i ! k))]" and ?i = "i[k := (fst (i ! k), snd (a ! k))]"
  have la: "map fst ?a = map fst a"
    using assms(2) by (simp add: map_update list_update_same_conv)
  have li: "map fst ?i = map fst i"
    using assms(2) len by (simp add: map_update list_update_same_conv)
  have al: "map fst ?a = map fst ?i" using assms(1) la li by simp
  have fk: "fst (a ! j) = fst (i ! j)" if "j < length a" for j
    using assms(1) that len by (metis nth_map)
  have "distance_of ?a ?i = distance_of a i"
    unfolding distance_of_aligned [OF al] distance_of_aligned [OF assms(1)]
  proof (rule nth_equalityI)
    show "length (map (\<lambda>(p, q). (fst p, fabs (fsub (fadd (snd p) (snd q)) (Finite 1)))) (zip ?a ?i)) =
          length (map (\<lambda>(p, q). (fst p, fabs (fsub (fadd (snd p) (snd q)) (Finite 1)))) (zip a i))"
      by simp
  next
    fix j
    assume "j < length (map (\<lambda>(p, q). (fst p, fabs (fsub (fadd (snd p) (snd q)) (Finite 1)))) (zip ?a ?i))"
    then have j: "j < length a" "j < length i" using len by simp_all
    show "map (\<lambda>(p, q). (fst p, fabs (fsub (fadd (snd p) (snd q)) (Finite 1)))) (zip ?a ?i) ! j =
          map (\<lambda>(p, q). (fst p, fabs (fsub (fadd (snd p) (snd q)) (Finite 1)))) (zip a i) ! j"
      using j by (cases "j = k") (simp_all add: fadd_commute)
  qed
  moreover have "distance_of i a = distance_of a i"
    unfolding distance_of_aligned [OF assms(1)] distance_of_aligned [OF assms(1) [symmetric]]
  proof (rule nth_equalityI)
    show "length (map (\<lambda>(p, q). (fst p, fabs (fsub (fadd (snd p) (snd q)) (Finite 1)))) (zip i a)) =
          length (map (\<lambda>(p, q). (fst p, fabs (fsub (fadd (snd p) (snd q)) (Finite 1)))) (zip a i))"
      using len by simp
  next
    fix j
    assume "j < length (map (\<lambda>(p, q). (fst p, fabs (fsub (fadd (snd p) (snd q)) (Finite 1)))) (zip i a))"
    then have j: "j < length a" "j < length i" using len by simp_all
    show "map (\<lambda>(p, q). (fst p, fabs (fsub (fadd (snd p) (snd q)) (Finite 1)))) (zip i a) ! j =
          map (\<lambda>(p, q). (fst p, fabs (fsub (fadd (snd p) (snd q)) (Finite 1)))) (zip a i) ! j"
      using j fk [of j] by (simp add: fadd_commute)
  qed
  ultimately show ?thesis by simp
qed

theorem distance_swap_invariant_witness:
  "map fst test_abstractness = map fst test_instability \<and> 0 < length test_abstractness \<and>
   distance_of (test_abstractness[0 := (fst (test_abstractness ! 0), snd (test_instability ! 0))])
       (test_instability[0 := (fst (test_instability ! 0), snd (test_abstractness ! 0))])
     = distance_of test_abstractness test_instability \<and>
   distance_of test_instability test_abstractness = distance_of test_abstractness test_instability"
proof -
  have l: "0 < length test_abstractness" by (simp add: test_abstractness_value)
  show ?thesis using distance_swap_invariant [OF test_aligned l] test_aligned l by blast
qed

lemma series_add_misaligned_labels:
  assumes "map fst a \<noteq> map fst i"
  shows "fst ` set (series_add a i) = fst ` set a \<union> fst ` set i"
proof (cases "a = [] \<or> i = []")
  case True
  then show ?thesis using assms by (auto simp: series_add_def image_image)
next
  case False
  let ?ls = "union_labels (map fst a) (map fst i)"
  have sa: "series_add a i = concat (map (join_label a i) ?ls)"
    using assms False by (simp add: series_add_def)
  have ls: "set ?ls = fst ` set a \<union> fst ` set i" by (simp add: set_union_labels)
  show ?thesis
  proof (intro equalityI subsetI)
    fix l assume "l \<in> fst ` set (series_add a i)"
    then obtain p k where "k \<in> set ?ls" "p \<in> set (join_label a i k)" "l = fst p"
      unfolding sa by auto
    then show "l \<in> fst ` set a \<union> fst ` set i" using fst_join_label [of p a i k] ls by simp
  next
    fix l assume l: "l \<in> fst ` set a \<union> fst ` set i"
    then have "join_label a i l \<noteq> []" by (rule join_label_nonempty)
    then obtain p where p: "p \<in> set (join_label a i l)" by (cases "join_label a i l") auto
    then have "fst p = l" by (rule fst_join_label)
    moreover have "p \<in> set (series_add a i)" unfolding sa using p l ls by auto
    ultimately show "l \<in> fst ` set (series_add a i)" by force
  qed
qed

lemma series_add_misaligned_values:
  assumes "map fst a \<noteq> map fst i" "(l, v) \<in> set (series_add a i)"
  shows "(l \<notin> fst ` set a \<or> l \<notin> fst ` set i \<longrightarrow> v = NaN) \<and>
         (l \<in> fst ` set a \<and> l \<in> fst ` set i \<longrightarrow>
            (\<exists>x \<in> set (values_at l a). \<exists>y \<in> set (values_at l i). v = fadd x y))"
proof (cases "a = [] \<or> i = []")
  case True
  then show ?thesis using assms by (auto simp: series_add_def)
next
  case False
  have sa: "series_add a i = concat (map (join_label a i) (union_labels (map fst a) (map fst i)))"
    using assms(1) False by (simp add: series_add_def)
  obtain k where "(l, v) \<in> set (join_label a i k)" using assms(2) unfolding sa by auto
  moreover from this have "k = l" using fst_join_label [of "(l, v)" a i k] by simp
  ultimately have "(l, v) \<in> set (join_label a i l)" by simp
  then show ?thesis by (rule join_label_values)
qed

lemma fsub_NaN: "fsub NaN c = NaN"
  by (simp add: fsub_def)

lemma distance_of_set:
  "set (distance_of a i) = (\<lambda>p. (fst p, fabs (fsub (snd p) (Finite 1)))) ` set (series_add a i)"
  by (simp add: distance_of_def series_abs_def series_sub_scalar_def image_image)

text \<open>
  Claim C10. When the two series do not have the same index, \<open>_calculate_distance\<close> does not
  raise. The labels of the distance series are those of either input. A label that one input
  lacks carries NaN (never 0), and a value at a label of both inputs is \<open>abs((x + y) - 1)\<close>
  for values \<open>x\<close> and \<open>y\<close> that the inputs hold at that label.
\<close>

theorem distance_misaligned:
  assumes "abstractness_metric s = Some a" "instability_metric s = Some i"
    and "map fst a \<noteq> map fst i"
  shows "\<exists>d. calculate_distance s = Inr (s\<lparr>distance := Some d\<rparr>) \<and>
           fst ` set d = fst ` set a \<union> fst ` set i \<and>
           (\<forall>l v. (l, v) \<in> set d \<longrightarrow>
              (l \<notin> fst ` set a \<or> l \<notin> fst ` set i \<longrightarrow> v = NaN) \<and>
              (l \<in> fst ` set a \<and> l \<in> fst ` set i \<longrightarrow>
                 (\<exists>x \<in> set (values_at l a). \<exists>y \<in> set (values_at l i).
                    v = fabs (fsub (fadd x y) (Finite 1)))))"
proof -
  let ?d = "distance_of a i"
  have "fst ` set ?d = fst ` set a \<union> fst ` set i"
    unfolding distance_of_set image_image using series_add_misaligned_labels [OF assms(3)] by simp
  moreover have "(l \<notin> fst ` set a \<or> l \<notin> fst ` set i \<longrightarrow> v = NaN) \<and>
      (l \<in> fst ` set a \<and> l \<in> fst ` set i \<longrightarrow>
         (\<exists>x \<in> set (values_at l a). \<exists>y \<in> set (values_at l i).
            v = fabs (fsub (fadd x y) (Finite 1))))"
    if lv: "(l, v) \<in> set ?d" for l v
  proof -
    obtain w where w: "(l, w) \<in> set (series_add a i)" and v: "v = fabs (fsub w (Finite 1))"
      using lv unfolding distance_of_set by auto
    note W = series_add_misaligned_values [OF assms(3) w]
    show ?thesis
    proof (intro conjI impI)
      assume "l \<notin> fst ` set a \<or> l \<notin> fst ` set i"
      then have "w = NaN" using W by blast
      then show "v = NaN" by (simp add: v fsub_NaN)
    next
      assume "l \<in> fst ` set a \<and> l \<in> fst ` set i"
      then obtain x y where "x \<in> set (values_at l a)" "y \<in> set (values_at l i)" "w = fadd x y"
        using W by blast
      then show "\<exists>x \<in> set (values_at l a). \<exists>y \<in> set (values_at l i).
                    v = fabs (fsub (fadd x y) (Finite 1))"
        using v by blast
    qed
  qed
  ultimately show ?thesis using calculate_distance_Some [OF assms(1,2)] by blast
qed

lemma round_double_value_18:
  "round_double (3 / 2) = Finite (3 / 2)"
  using round_double_normal [of "0" "3 / 2" "6755399441055744"] by (simp add: pow2_def)

lemma misaligned_state_fields:
  "abstractness_metric misaligned_state = Some misaligned_abstractness"
  "instability_metric misaligned_state = Some misaligned_instability"
  by (simp_all add: misaligned_state_def)

lemma misaligned_labels: "map fst misaligned_abstractness \<noteq> map fst misaligned_instability"
  by (simp add: misaligned_abstractness_def misaligned_instability_def)

lemma misaligned_distance_value:
  "distance_of misaligned_abstractness misaligned_instability =
     [(Name ''a'', NaN), (Name ''b'', Finite (1 / 2)), (Name ''c'', NaN)]"
  by (simp add: distance_of_def series_abs_def series_sub_scalar_def series_add_def
      misaligned_abstractness_def misaligned_instability_def union_labels_def join_label_def
      values_at_def fsub_def round_double_value_18 round_double_value_4)

theorem distance_misaligned_witness:
  "abstractness_metric misaligned_state = Some misaligned_abstractness \<and>
   instability_metric misaligned_state = Some misaligned_instability \<and>
   map fst misaligned_abstractness \<noteq> map fst misaligned_instability \<and>
   calculate_distance misaligned_state =
     Inr (misaligned_state\<lparr>distance :=
       Some [(Name ''a'', NaN), (Name ''b'', Finite (1 / 2)), (Name ''c'', NaN)]\<rparr>) \<and>
   (\<exists>d. calculate_distance misaligned_state = Inr (misaligned_state\<lparr>distance := Some d\<rparr>) \<and>
        fst ` set d = fst ` set misaligned_abstractness \<union> fst ` set misaligned_instability \<and>
        (\<forall>l v. (l, v) \<in> set d \<longrightarrow>
           (l \<notin> fst ` set misaligned_abstractness \<or> l \<notin> fst ` set misaligned_instability
              \<longrightarrow> v = NaN) \<and>
           (l \<in> fst ` set misaligned_abstractness \<and> l \<in> fst ` set misaligned_instability \<longrightarrow>
              (\<exists>x \<in> set (values_at l misaligned_abstractness).
               \<exists>y \<in> set (values_at l misaligned_instability).
                 v = fabs (fsub (fadd x y) (Finite 1))))))"
proof -
  have "calculate_distance misaligned_state =
     Inr (misaligned_state\<lparr>distance :=
       Some [(Name ''a'', NaN), (Name ''b'', Finite (1 / 2)), (Name ''c'', NaN)]\<rparr>)"
    by (simp add: calculate_distance_Some [OF misaligned_state_fields] misaligned_distance_value)
  then show ?thesis
    using distance_misaligned [OF misaligned_state_fields misaligned_labels]
      misaligned_state_fields misaligned_labels
    by (intro conjI) assumption+
qed

text \<open>
  Claim C9. \<open>plot_distance\<close> takes both metrics from the collaborator and computes the distance
  from them: the instability, abstractness and distance fields that the object held before
  the call have no effect on the result. When the collaborator returns the pair \<open>(i, a)\<close>,
  the stored and plotted distance is \<open>abs(a + i - 1)\<close>; when it raises, so does the call.
\<close>

theorem plot_distance_recomputes:
  "plot_distance dsu (s\<lparr>instability_metric := iold, abstractness_metric := aold, distance := dold\<rparr>)
     = plot_distance dsu s \<and>
   (dsu (dir_path s) = Inr (i, a) \<longrightarrow>
      plot_distance dsu (s\<lparr>distance := dold\<rparr>) =
        Inr (s\<lparr>instability_metric := Some i, abstractness_metric := Some a,
               distance := Some (distance_of a i)\<rparr>,
             [Plot [0 ..< length (distance_of a i)] (distance_of a i) ''x'' ''None'',
              Xticks [0 ..< length (distance_of a i)] (map fst i) 45 ''right'',
              Ylabel ''[D]istance'' 18, Show])) \<and>
   (dsu (dir_path s) = Inl e \<longrightarrow> plot_distance dsu (s\<lparr>distance := dold\<rparr>) = Inl e)"
  by (cases "dsu (dir_path s)")
     (auto simp: plot_distance_def calculate_distance_def Let_def)

lemma length_test_computed: "length test_computed = 6"
  by (simp add: test_computed_def)

theorem plot_distance_recomputes_witness:
  "test_collaborator (dir_path (init_DistanceIA [])) = Inr (test_instability, test_abstractness) \<and>
   plot_distance test_collaborator stale_state =
     Inr ((init_DistanceIA [])\<lparr>instability_metric := Some test_instability,
            abstractness_metric := Some test_abstractness, distance := Some test_computed\<rparr>,
          [Plot [0 ..< 6] test_computed ''x'' ''None'',
           Xticks [0 ..< 6] (map fst test_instability) 45 ''right'',
           Ylabel ''[D]istance'' 18, Show]) \<and>
   failing_collaborator (dir_path (init_DistanceIA [])) = Inl OSError \<and>
   plot_distance failing_collaborator stale_state = Inl OSError"
proof -
  have c: "test_collaborator (dir_path (init_DistanceIA [])) = Inr (test_instability, test_abstractness)"
    by (simp add: test_collaborator_def)
  have "plot_distance test_collaborator ((init_DistanceIA [])\<lparr>distance := Some test_expected\<rparr>) =
        Inr ((init_DistanceIA [])\<lparr>instability_metric := Some test_instability,
               abstractness_metric := Some test_abstractness,
               distance := Some (distance_of test_abstractness test_instability)\<rparr>,
             [Plot [0 ..< length (distance_of test_abstractness test_instability)]
                (distance_of test_abstractness test_instability) ''x'' ''None'',
              Xticks [0 ..< length (distance_of test_abstractness test_instability)]
                (map fst test_instability) 45 ''right'',
              Ylabel ''[D]istance'' 18, Show])"
    using plot_distance_recomputes [where dsu = test_collaborator and s = "init_DistanceIA []"
        and dold = "Some test_expected" and i = test_instability and a = test_abstractness] c
    by blast
  then have ok: "plot_distance test_collaborator stale_state =
     Inr ((init_DistanceIA [])\<lparr>instability_metric := Some test_instability,
            abstractness_metric := Some test_abstractness, distance := Some test_computed\<rparr>,
          [Plot [0 ..< 6] test_computed ''x'' ''None'',
           Xticks [0 ..< 6] (map fst test_instability) 45 ''right'',
           Ylabel ''[D]istance'' 18, Show])"
    by (simp only: stale_state_def test_distance_value length_test_computed)
  have f: "failing_collaborator (dir_path (init_DistanceIA [])) = Inl OSError"
    by (simp add: failing_collaborator_def)
  have "plot_distance failing_collaborator ((init_DistanceIA [])\<lparr>distance := Some test_expected\<rparr>)
        = Inl OSError"
    using plot_distance_recomputes [where dsu = failing_collaborator and s = "init_DistanceIA []"
        and dold = "Some test_expected" and e = OSError] f
    by blast
  then have bad: "plot_distance failing_collaborator stale_state = Inl OSError"
    by (simp only: stale_state_def)
  show ?thesis using c ok f bad by (intro conjI)
qed

section \<open>Properties of the dependency extractor\<close>

lemma classify_form:
  assumes "list_all is_space ws" "close_delim k \<notin> set name"
  shows "classify_line (ws @ ''#include '' @ [open_delim k] @ name @ [close_delim k]) = Some (k, name)"
proof (cases k)
  case UserLib
  then show ?thesis using classify_user_form [of ws name] assms by simp
next
  case StdLib
  then show ?thesis using classify_std_form [of ws name] assms by simp
qed

lemma names_of_Cons:
  "names_of k ((k', n) # found) = (if k' = k then n # names_of k found else names_of k found)"
  by (simp add: names_of_def)

lemma names_of_Nil: "names_of k [] = []"
  by (simp add: names_of_def)

lemma map_filter_Cons:
  "List.map_filter f (x # xs) = (case f x of None \<Rightarrow> List.map_filter f xs | Some y \<Rightarrow> y # List.map_filter f xs)"
  by (simp add: List.map_filter_def split: option.splits)

lemma map_filter_Nil: "List.map_filter f [] = []"
  by (simp add: List.map_filter_def)

text \<open>The lists a classified line contributes to.\<close>

lemma includes_of_text_line:
  assumes "CHR 0x0A \<notin> set l"
  shows "includes_of_text (l @ CHR 0x0A # rest) =
           (case classify_line l of
              None \<Rightarrow> includes_of_text rest
            | Some (UserLib, n) \<Rightarrow> (n # fst (includes_of_text rest), snd (includes_of_text rest))
            | Some (StdLib, n) \<Rightarrow> (fst (includes_of_text rest), n # snd (includes_of_text rest)))"
  unfolding includes_of_text_def Let_def split_lines_line [OF assms]
  by (simp add: map_filter_Cons names_of_Cons split: option.splits include_kind.splits)

lemma includes_of_text_last:
  assumes "CHR 0x0A \<notin> set l"
  shows "includes_of_text l =
           (case classify_line l of
              None \<Rightarrow> ([], [])
            | Some (UserLib, n) \<Rightarrow> ([n], [])
            | Some (StdLib, n) \<Rightarrow> ([], [n]))"
  unfolding includes_of_text_def Let_def split_lines_no_newline [OF assms]
  by (simp add: map_filter_Cons map_filter_Nil names_of_Cons names_of_Nil
      split: option.splits include_kind.splits)

lemma get_includes_readable:
  "path \<noteq> [] \<Longrightarrow> fs path = Some text \<Longrightarrow>
   get_includes_of_file fs path = (includes_of_text text, [])"
  by (simp add: get_includes_of_file_def read_file_def)

lemma classify_vector: "classify_line ''#include <vector>'' = Some (StdLib, ''vector'')"
  using classify_form [of "[]" StdLib "''vector''"] by simp

lemma classify_helper:
  "classify_line (''  #include '' @ [CHR 0x22] @ ''helper.h'' @ [CHR 0x22]) = Some (UserLib, ''helper.h'')"
  using classify_form [of "''  ''" UserLib "''helper.h''"] by (simp add: is_space_def)

lemma classify_main: "classify_line ''int main() { return 0; }'' = None"
  by (simp add: classify_line_def is_space_def)

lemma classify_empty: "classify_line [] = None"
  by (simp add: classify_line_def)

lemma test_source_includes: "includes_of_text test_source = ([''helper.h''], [''vector''])"
proof -
  have 1: "CHR 0x0A \<notin> set ''#include <vector>''" by simp
  have 2: "CHR 0x0A \<notin> set (''  #include '' @ [CHR 0x22] @ ''helper.h'' @ [CHR 0x22])" by simp
  have 3: "CHR 0x0A \<notin> set ''int main() { return 0; }''" by simp
  have 4: "CHR 0x0A \<notin> set ''''" by simp
  have e: "includes_of_text [] = ([], [])"
    using includes_of_text_last [OF 4] by (simp add: classify_empty)
  have m: "includes_of_text (''int main() { return 0; }'' @ [CHR 0x0A]) = ([], [])"
    using includes_of_text_line [OF 3, of "[]"] by (simp only: classify_main e option.case)
  have h: "includes_of_text ((''  #include '' @ [CHR 0x22] @ ''helper.h'' @ [CHR 0x22]) @ CHR 0x0A #
             ''int main() { return 0; }'' @ [CHR 0x0A]) = ([''helper.h''], [])"
    using includes_of_text_line [OF 2, of "''int main() { return 0; }'' @ [CHR 0x0A]"]
    by (simp only: classify_helper m option.case prod.case include_kind.case fst_conv snd_conv)
  have "includes_of_text (''#include <vector>'' @ CHR 0x0A #
             (''  #include '' @ [CHR 0x22] @ ''helper.h'' @ [CHR 0x22]) @ CHR 0x0A #
             ''int main() { return 0; }'' @ [CHR 0x0A]) = ([''helper.h''], [''vector''])"
    using includes_of_text_line [OF 1, of "(''  #include '' @ [CHR 0x22] @ ''helper.h'' @ [CHR 0x22]) @ CHR 0x0A #
             ''int main() { return 0; }'' @ [CHR 0x0A]"]
    by (simp only: classify_vector h option.case prod.case include_kind.case fst_conv snd_conv)
  then show ?thesis by (simp add: test_source_def)
qed

text \<open>
  Claim C4. A line made of whitespace, \<open>#include\<close>, a space and a name between double
  quotes is a user include, and one with the name between angle brackets is a
  standard-library include; the captured name is the text between the delimiters. Only lines
  of these forms are classified. The extractor goes through the lines in order: a classified
  line puts its name in front of the list of its kind and any other line adds nothing, so
  order and duplicates are kept. The file with \<open>#include <vector>\<close> and an indented
  \<open>#include "helper.h"\<close> yields the user includes \<open>helper.h\<close> and the standard-library
  includes \<open>vector\<close>.
\<close>

theorem extractor_classifies_lines:
  "(list_all is_space ws \<and> close_delim k \<notin> set name \<longrightarrow>
      classify_line (ws @ ''#include '' @ [open_delim k] @ name @ [close_delim k]) = Some (k, name)) \<and>
   (classify_line line = Some (k, name) \<longrightarrow>
      (\<exists>ws. list_all is_space ws \<and> close_delim k \<notin> set name \<and>
            line = ws @ ''#include '' @ [open_delim k] @ name @ [close_delim k])) \<and>
   (CHR 0x0A \<notin> set l \<longrightarrow>
      includes_of_text (l @ CHR 0x0A # rest) =
        (case classify_line l of
           None \<Rightarrow> includes_of_text rest
         | Some (UserLib, n) \<Rightarrow> (n # fst (includes_of_text rest), snd (includes_of_text rest))
         | Some (StdLib, n) \<Rightarrow> (fst (includes_of_text rest), n # snd (includes_of_text rest)))) \<and>
   (CHR 0x0A \<notin> set l \<longrightarrow>
      includes_of_text l =
        (case classify_line l of
           None \<Rightarrow> ([], [])
         | Some (UserLib, n) \<Rightarrow> ([n], [])
         | Some (StdLib, n) \<Rightarrow> ([], [n]))) \<and>
   (path \<noteq> [] \<and> fs path = Some content \<longrightarrow>
      get_includes_of_file fs path = (includes_of_text content, [])) \<and>
   get_includes_of_file test_file_system ''source.cpp'' = (([''helper.h''], [''vector'']), [])"
proof -
  have "get_includes_of_file test_file_system ''source.cpp'' = (includes_of_text test_source, [])"
    by (rule get_includes_readable) (simp_all add: test_file_system_def)
  then show ?thesis
    using classify_form [of ws k name] classify_line_SomeD [of line k name]
      includes_of_text_line [of l rest] includes_of_text_last [of l]
      get_includes_readable [of path fs content]
    by (simp only: test_source_includes) blast
qed

theorem extractor_classifies_lines_witness:
  "list_all is_space ''  '' \<and> close_delim UserLib \<notin> set ''helper.h'' \<and>
   classify_line (''  '' @ ''#include '' @ [open_delim UserLib] @ ''helper.h'' @ [close_delim UserLib])
     = Some (UserLib, ''helper.h'') \<and>
   classify_line ''#include <vector>'' = Some (StdLib, ''vector'') \<and>
   (\<exists>ws. list_all is_space ws \<and> close_delim StdLib \<notin> set ''vector'' \<and>
         ''#include <vector>'' = ws @ ''#include '' @ [open_delim StdLib] @ ''vector'' @ [close_delim StdLib]) \<and>
   CHR 0x0A \<notin> set ''#include <vector>'' \<and>
   includes_of_text ''#include <vector>'' = ([], [''vector'']) \<and>
   includes_of_text (''#include <vector>'' @ CHR 0x0A # ''#include <vector>'')
     = ([], [''vector'', ''vector'']) \<and>
   ''source.cpp'' \<noteq> [] \<and> test_file_system ''source.cpp'' = Some test_source \<and>
   get_includes_of_file test_file_system ''source.cpp'' = (includes_of_text test_source, [])"
proof -
  note T = extractor_classifies_lines [where ws = "''  ''" and k = UserLib and name = "''helper.h''"
      and l = "''#include <vector>''" and path = "''source.cpp''" and fs = test_file_system
      and content = test_source and line = "''#include <vector>''" and rest = "''#include <vector>''"]
  have 1: "list_all is_space ''  ''" by (simp add: is_space_def)
  have 2: "close_delim UserLib \<notin> set ''helper.h''" by simp
  have 3: "CHR 0x0A \<notin> set ''#include <vector>''" by simp
  have 4: "''source.cpp'' \<noteq> []" "test_file_system ''source.cpp'' = Some test_source"
    by (simp_all add: test_file_system_def)
  have a: "classify_line (''  '' @ ''#include '' @ [open_delim UserLib] @ ''helper.h'' @ [close_delim UserLib])
     = Some (UserLib, ''helper.h'')"
    using T 1 2 by blast
  have "includes_of_text ''#include <vector>'' =
        (case classify_line ''#include <vector>'' of
           None \<Rightarrow> ([], [])
         | Some (UserLib, n) \<Rightarrow> ([n], [])
         | Some (StdLib, n) \<Rightarrow> ([], [n]))"
    using T 3 by blast
  then have b: "includes_of_text ''#include <vector>'' = ([], [''vector''])"
    by (simp only: classify_vector option.case prod.case include_kind.case)
  have c: "get_includes_of_file test_file_system ''source.cpp'' = (includes_of_text test_source, [])"
    using T 4 by blast
  have d: "\<exists>ws. list_all is_space ws \<and> close_delim StdLib \<notin> set ''vector'' \<and>
         ''#include <vector>'' = ws @ ''#include '' @ [open_delim StdLib] @ ''vector'' @ [close_delim StdLib]"
    using extractor_classifies_lines [where line = "''#include <vector>''" and k = StdLib
        and name = "''vector''"] classify_vector
    by blast
  have "includes_of_text (''#include <vector>'' @ CHR 0x0A # ''#include <vector>'') =
        (case classify_line ''#include <vector>'' of
           None \<Rightarrow> includes_of_text ''#include <vector>''
         | Some (UserLib, n) \<Rightarrow>
             (n # fst (includes_of_text ''#include <vector>''), snd (includes_of_text ''#include <vector>''))
         | Some (StdLib, n) \<Rightarrow>
             (fst (includes_of_text ''#include <vector>''), n # snd (includes_of_text ''#include <vector>'')))"
    using T 3 by blast
  then have e: "includes_of_text (''#include <vector>'' @ CHR 0x0A # ''#include <vector>'')
     = ([], [''vector'', ''vector''])"
    by (simp only: classify_vector b option.case prod.case include_kind.case fst_conv snd_conv)
  show ?thesis using 1 2 3 4 a b c d e classify_vector by (intro conjI)
qed

section \<open>Properties of the matrix builder\<close>

lemma well_shaped_create:
  "well_shaped (length paths) (create_user_include_matrix extract paths)"
  by (simp add: well_shaped_def create_user_include_matrix_def Let_def list_all_iff)

lemma all_zero_create: "all_zero (create_user_include_matrix extract paths)"
  by (simp add: all_zero_def create_user_include_matrix_def Let_def list_all_iff)

lemma create_fields:
  "index (create_user_include_matrix extract paths) = map extract paths"
  "columns (create_user_include_matrix extract paths) = map extract paths"
  by (simp_all add: create_user_include_matrix_def Let_def)

lemma well_shaped_add_stl_of_file:
  assumes "well_shaped n m"
  shows "well_shaped n (add_stl_of_file stl m)"
proof -
  have "length (columns (add_stl_of_file stl m)) =
        length (columns m) + (length (columns (add_stl_of_file stl m)) - length (columns m))"
    by (simp add: columns_add_stl_of_file)
  then show ?thesis
    using assms unfolding well_shaped_def cells_add_stl_of_file [of stl m]
    by (auto simp: list_all_iff)
qed

lemma all_zero_add_stl_of_file: "all_zero m \<Longrightarrow> all_zero (add_stl_of_file stl m)"
  unfolding all_zero_def cells_add_stl_of_file [of stl m] by (auto simp: list_all_iff)

lemma columns_add_stl_includes:
  "columns (add_stl_includes incs m) =
     columns m @ first_occurrences (filter (\<lambda>n. n \<notin> set (columns m)) (concat (map snd incs)))"
  by (simp add: add_stl_includes_concat columns_add_stl_of_file)

lemma distinct_columns_add_stl_includes:
  assumes "distinct (columns m)"
  shows "distinct (columns (add_stl_includes incs m))"
  unfolding columns_add_stl_includes
  using assms by (auto simp: distinct_first_occurrences set_first_occurrences)

lemma fill_include_matrix_props:
  assumes "well_shaped (length incs) m"
  shows "well_shaped (length incs) (fill_include_matrix incs m)"
    and "columns (fill_include_matrix incs m) = columns m"
    and "index (fill_include_matrix incs m) = index m"
    and "r < length incs \<Longrightarrow> j < length (columns m) \<Longrightarrow>
         cells (fill_include_matrix incs m) ! r ! j =
           (if columns m ! j \<in> set (fst (incs ! r)) \<union> set (snd (incs ! r)) then 1
            else cells m ! r ! j)"
  using fill_from [OF assms, of 0 incs] unfolding fill_include_matrix_def by simp_all

lemma build_fields:
  "index (fst (build_include_matrix fs extract paths)) = map extract paths"
  "length (cells (fst (build_include_matrix fs extract paths))) = length paths"
  "columns (fst (build_include_matrix fs extract paths)) =
     map extract paths @
     first_occurrences (filter (\<lambda>n. n \<notin> set (map extract paths))
       (concat (map (\<lambda>p. snd (fst (get_includes_of_file fs p))) paths)))"
  "snd (build_include_matrix fs extract paths) = concat (map (\<lambda>p. snd (get_includes_of_file fs p)) paths)"
proof -
  let ?incs = "map fst (map (get_includes_of_file fs) paths)"
  let ?m1 = "add_stl_includes ?incs (create_user_include_matrix extract paths)"
  have ws: "well_shaped (length ?incs) ?m1"
    unfolding add_stl_includes_concat
    using well_shaped_add_stl_of_file [OF well_shaped_create [of paths "extract"]] by simp
  note F = fill_include_matrix_props [OF ws]
  have b: "fst (build_include_matrix fs extract paths) = fill_include_matrix ?incs ?m1"
    by (simp add: build_include_matrix_def Let_def)
  show "index (fst (build_include_matrix fs extract paths)) = map extract paths"
    unfolding b F(3) by (simp add: add_stl_includes_concat index_add_stl_of_file create_fields)
  show "length (cells (fst (build_include_matrix fs extract paths))) = length paths"
    unfolding b using F(1) by (simp add: well_shaped_def)
  show "columns (fst (build_include_matrix fs extract paths)) =
     map extract paths @
     first_occurrences (filter (\<lambda>n. n \<notin> set (map extract paths))
       (concat (map (\<lambda>p. snd (fst (get_includes_of_file fs p))) paths)))"
    unfolding b F(2) columns_add_stl_includes by (simp add: create_fields o_def)
  show "snd (build_include_matrix fs extract paths) = concat (map (\<lambda>p. snd (get_includes_of_file fs p)) paths)"
    by (simp add: build_include_matrix_def Let_def o_def)
qed


lemma zero_fill_cells:
  assumes "well_shaped (length incs) m" "all_zero m" "r < length incs" "j < length (columns m)"
  shows "cells (fill_include_matrix incs m) ! r ! j =
           (if columns m ! j \<in> set (fst (incs ! r)) \<union> set (snd (incs ! r)) then 1 else 0)"
proof -
  have "r < length (cells m)" "length (cells m ! r) = length (columns m)"
    using assms(1,3) by (auto simp: well_shaped_def list_all_length)
  then have "cells m ! r ! j = 0" using all_zero_nth [OF assms(2), of r j] assms(4) by simp
  then show ?thesis using fill_include_matrix_props(4) [OF assms(1,3,4)] by simp
qed


lemma build_cells:
  assumes "r < length paths" "j < length (columns (fst (build_include_matrix fs label_of paths)))"
  shows "cells (fst (build_include_matrix fs label_of paths)) ! r ! j =
           (if columns (fst (build_include_matrix fs label_of paths)) ! j
                 \<in> set (fst (fst (get_includes_of_file fs (paths ! r))))
                   \<union> set (snd (fst (get_includes_of_file fs (paths ! r))))
            then 1 else 0)"
proof -
  let ?incs = "map fst (map (get_includes_of_file fs) paths)"
  let ?m1 = "add_stl_includes ?incs (create_user_include_matrix label_of paths)"
  have ws: "well_shaped (length ?incs) ?m1"
    unfolding add_stl_includes_concat
    using well_shaped_add_stl_of_file [OF well_shaped_create [of paths label_of]] by simp
  have az: "all_zero ?m1"
    unfolding add_stl_includes_concat by (rule all_zero_add_stl_of_file) (rule all_zero_create)
  have b: "fst (build_include_matrix fs label_of paths) = fill_include_matrix ?incs ?m1"
    by (simp add: build_include_matrix_def Let_def)
  have c: "columns (fill_include_matrix ?incs ?m1) = columns ?m1"
    by (rule fill_include_matrix_props(2) [OF ws])
  have r: "r < length ?incs" using assms(1) by simp
  have j: "j < length (columns ?m1)" using assms(2) unfolding b c .
  show ?thesis
    unfolding b c using zero_fill_cells [OF ws az r j] assms(1) by simp
qed






text \<open>
  Claim C3, with the duplicates the user labels may bring. In the standard-library pass a
  file whose names all label a column leaves the matrix unchanged, and a name without a
  column appends exactly one zero column. After the pass the columns are the former columns
  in their order, followed by the names that had no column, each once and in the order of
  first discovery; no appended label repeats a former one, and the rows and their labels
  stay. So the column labels are free of duplicates whenever the user labels are. The columns
  of a built matrix are the user labels followed by the new standard-library names.
\<close>

theorem stl_pass_columns:
  "(set stl \<subseteq> set (columns m) \<longrightarrow> add_stl_of_file stl m = m) \<and>
   (name \<notin> set (columns m) \<longrightarrow>
      columns (add_stl_of_file [name] m) = columns m @ [name] \<and>
      cells (add_stl_of_file [name] m) = map (\<lambda>row. row @ [0]) (cells m)) \<and>
   columns (add_stl_includes incs m) =
     columns m @ first_occurrences (filter (\<lambda>n. n \<notin> set (columns m)) (concat (map snd incs))) \<and>
   distinct (first_occurrences (filter (\<lambda>n. n \<notin> set (columns m)) (concat (map snd incs)))) \<and>
   set (first_occurrences (filter (\<lambda>n. n \<notin> set (columns m)) (concat (map snd incs))))
     = set (concat (map snd incs)) - set (columns m) \<and>
   index (add_stl_includes incs m) = index m \<and>
   length (cells (add_stl_includes incs m)) = length (cells m) \<and>
   (distinct (columns m) \<longrightarrow> distinct (columns (add_stl_includes incs m))) \<and>
   columns (fst (build_include_matrix fs label_of paths)) =
     map label_of paths @
     first_occurrences (filter (\<lambda>n. n \<notin> set (map label_of paths))
       (concat (map (\<lambda>p. snd (fst (get_includes_of_file fs p))) paths)))"
proof -
  have 1: "set stl \<subseteq> set (columns m) \<longrightarrow> add_stl_of_file stl m = m"
    using add_stl_of_file_known by blast
  have 2: "name \<notin> set (columns m) \<longrightarrow>
      columns (add_stl_of_file [name] m) = columns m @ [name] \<and>
      cells (add_stl_of_file [name] m) = map (\<lambda>row. row @ [0]) (cells m)"
    by (simp add: add_stl_of_file_Cons add_stl_of_file_Nil columns_add_column cells_add_column)
  have 3: "index (add_stl_includes incs m) = index m"
    by (simp add: add_stl_includes_concat index_add_stl_of_file)
  have 4: "length (cells (add_stl_includes incs m)) = length (cells m)"
    unfolding add_stl_includes_concat cells_add_stl_of_file [of "concat (map snd incs)" m] by simp
  have 5: "set (first_occurrences (filter (\<lambda>n. n \<notin> set (columns m)) (concat (map snd incs))))
     = set (concat (map snd incs)) - set (columns m)"
    unfolding set_first_occurrences by auto
  show ?thesis
    using 1 2 3 4 5 columns_add_stl_includes [of incs m] distinct_first_occurrences
      distinct_columns_add_stl_includes [of m incs] build_fields(3) [of fs label_of paths]
    by blast
qed

lemma test_user_matrix_value:
  "test_user_matrix =
     \<lparr>index = test_filenames, columns = test_filenames,
      cells = [[0, 0, 0], [0, 0, 0], [0, 0, 0]]\<rparr>"
  by (simp add: test_user_matrix_def create_user_include_matrix_def test_filenames_def Let_def)

theorem stl_pass_columns_witness:
  "set [''file1''] \<subseteq> set (columns test_user_matrix) \<and>
   add_stl_of_file [''file1''] test_user_matrix = test_user_matrix \<and>
   ''std_lib'' \<notin> set (columns test_user_matrix) \<and>
   columns (add_stl_of_file [''std_lib''] test_user_matrix) = columns test_user_matrix @ [''std_lib''] \<and>
   distinct (columns test_user_matrix) \<and>
   distinct (columns (add_stl_includes test_includes test_user_matrix)) \<and>
   columns (add_stl_includes test_includes test_user_matrix) =
     [''file0'', ''file1'', ''file2'', ''std_lib'', ''std_out'']"
proof -
  note T = stl_pass_columns [where stl = "[''file1'']" and m = test_user_matrix
      and name = "''std_lib''" and incs = test_includes]
  have 1: "set [''file1''] \<subseteq> set (columns test_user_matrix)"
    by (simp add: test_user_matrix_value test_filenames_def)
  have 2: "''std_lib'' \<notin> set (columns test_user_matrix)"
    by (simp add: test_user_matrix_value test_filenames_def)
  have 3: "distinct (columns test_user_matrix)"
    by (simp add: test_user_matrix_value test_filenames_def)
  have a: "add_stl_of_file [''file1''] test_user_matrix = test_user_matrix" using T 1 by blast
  have b: "columns (add_stl_of_file [''std_lib''] test_user_matrix) = columns test_user_matrix @ [''std_lib'']"
    using T 2 by blast
  have c: "distinct (columns (add_stl_includes test_includes test_user_matrix))" using T 3 by blast
  have "columns (add_stl_includes test_includes test_user_matrix) =
     columns test_user_matrix @
     first_occurrences (filter (\<lambda>n. n \<notin> set (columns test_user_matrix)) (concat (map snd test_includes)))"
    using T by blast
  then have d: "columns (add_stl_includes test_includes test_user_matrix) =
     [''file0'', ''file1'', ''file2'', ''std_lib'', ''std_out'']"
    by (simp add: test_user_matrix_value test_filenames_def test_includes_def)
  show ?thesis using 1 2 3 a b c d by (intro conjI)
qed

text \<open>
  When two files carry the same label, the column list after the standard-library pass has a
  duplicate label.
\<close>

theorem stl_pass_duplicate_labels_counterexample:
  "columns (add_stl_includes same_label_includes same_label_matrix) = [''test'', ''test'', ''vector''] \<and>
   \<not> distinct (columns (add_stl_includes same_label_includes same_label_matrix))"
proof -
  have "columns (add_stl_includes same_label_includes same_label_matrix) = [''test'', ''test'', ''vector'']"
    by (simp add: columns_add_stl_includes same_label_includes_def same_label_matrix_def create_fields)
  then show ?thesis by simp
qed

text \<open>
  Claim C2. The fill pass on a matrix of zeros that has a row for every file keeps the
  columns, and afterwards the cell of file \<open>r\<close> in column \<open>j\<close> is 1 if the label of the column
  occurs in the user includes or in the standard-library includes of the file, and 0
  otherwise. The same holds for every cell of a built matrix.
\<close>

theorem fill_pass_cells:
  assumes "well_shaped (length incs) m" "all_zero m"
  shows "columns (fill_include_matrix incs m) = columns m \<and>
         well_shaped (length incs) (fill_include_matrix incs m) \<and>
         (\<forall>r < length incs. \<forall>j < length (columns m).
            cells (fill_include_matrix incs m) ! r ! j =
              (if columns m ! j \<in> set (fst (incs ! r)) \<union> set (snd (incs ! r)) then 1 else 0)) \<and>
         (\<forall>r < length paths. \<forall>j < length (columns (fst (build_include_matrix fs label_of paths))).
            cells (fst (build_include_matrix fs label_of paths)) ! r ! j =
              (if columns (fst (build_include_matrix fs label_of paths)) ! j
                    \<in> set (fst (fst (get_includes_of_file fs (paths ! r))))
                      \<union> set (snd (fst (get_includes_of_file fs (paths ! r))))
               then 1 else 0))"
  using fill_include_matrix_props(1,2) [OF assms(1)] zero_fill_cells [OF assms]
    build_cells [of _ paths _ fs label_of]
  by blast

lemma test_grown_shape: "well_shaped (length test_includes) test_grown_matrix"
  and test_grown_zero: "all_zero test_grown_matrix"
  by (simp_all add: well_shaped_def all_zero_def test_grown_matrix_def test_includes_def
      test_filenames_def numeral_3_eq_3 eval_nat_numeral)

lemma test_fill_value: "fill_include_matrix test_includes test_grown_matrix = test_filled_matrix"
  by (simp add: fill_include_matrix_def fill_file_def set_cell_def test_includes_def
      test_grown_matrix_def test_filled_matrix_def test_filenames_def eval_nat_numeral)

theorem fill_pass_cells_witness:
  "well_shaped (length test_includes) test_grown_matrix \<and> all_zero test_grown_matrix \<and>
   columns (fill_include_matrix test_includes test_grown_matrix) = columns test_grown_matrix \<and>
   cells (fill_include_matrix test_includes test_grown_matrix) ! 2 ! 4 = 1 \<and>
   cells (fill_include_matrix test_includes test_grown_matrix) ! 2 ! 3 = 0 \<and>
   fill_include_matrix test_includes test_grown_matrix = test_filled_matrix"
proof -
  note T = fill_pass_cells [OF test_grown_shape test_grown_zero]
  have r: "2 < length test_includes" by (simp add: test_includes_def)
  have j: "4 < length (columns test_grown_matrix)" "3 < length (columns test_grown_matrix)"
    by (simp_all add: test_grown_matrix_def test_filenames_def)
  have a: "columns (fill_include_matrix test_includes test_grown_matrix) = columns test_grown_matrix"
    using T by blast
  have "cells (fill_include_matrix test_includes test_grown_matrix) ! 2 ! 4 =
        (if columns test_grown_matrix ! 4 \<in> set (fst (test_includes ! 2)) \<union> set (snd (test_includes ! 2))
         then 1 else 0)"
    using T r j(1) by blast
  then have b: "cells (fill_include_matrix test_includes test_grown_matrix) ! 2 ! 4 = 1"
    by (simp add: test_grown_matrix_def test_filenames_def test_includes_def)
  have "cells (fill_include_matrix test_includes test_grown_matrix) ! 2 ! 3 =
        (if columns test_grown_matrix ! 3 \<in> set (fst (test_includes ! 2)) \<union> set (snd (test_includes ! 2))
         then 1 else 0)"
    using T r j(2) by blast
  then have c: "cells (fill_include_matrix test_includes test_grown_matrix) ! 2 ! 3 = 0"
    by (simp add: test_grown_matrix_def test_filenames_def test_includes_def)
  show ?thesis using test_grown_shape test_grown_zero a b c test_fill_value by (intro conjI)
qed

end
